theory Spec2Isabelle
  imports Complex_Main "HOL-Library.AList" "HOL-Library.List_Lexorder"
    "HOL-Library.Product_Lexorder"
begin

section \<open>Strings, cells and tables\<close>

text \<open>
  A Python \<open>str\<close> is a sequence of Unicode code points: \<open>len\<close> counts code points,
  slicing cuts between them and comparison is lexicographic on them. It is modelled as a
  list of code points; the order on such lists is the lexicographic one. ASCII literals
  of the source are written through \<open>ascii\<close>.
\<close>

type_synonym pystr = "nat list"

definition ascii :: "string \<Rightarrow> pystr" where
  "ascii s = map of_char s"

text \<open>
  A cell of the uploaded table holds text, a number, or nothing (pandas' NaN).
\<close>

datatype cell = Blank | Text pystr | Number rat

text \<open>
  The DataFrame \<open>df\<close>: its column labels and its rows, every row holding one cell per
  column. \<open>read_csv\<close> and \<open>read_excel\<close> make the labels unique.
\<close>

record dataframe =
  columns :: "pystr list"
  rows :: "cell list list"

definition wf_df :: "dataframe \<Rightarrow> bool" where
  "wf_df df \<longleftrightarrow>
     distinct (columns df) \<and> (\<forall>row \<in> set (rows df). length row = length (columns df))"

text \<open>\<open>len(df)\<close>: the number of rows.\<close>

definition len_df :: "dataframe \<Rightarrow> nat" where
  "len_df df = length (rows df)"

text \<open>The cell of a row under a column label.\<close>

definition cell_of :: "pystr list \<Rightarrow> cell list \<Rightarrow> pystr \<Rightarrow> cell" where
  "cell_of cs row c = (case map_of (zip cs row) c of Some v \<Rightarrow> v | None \<Rightarrow> Blank)"

datatype error = SelectionError | KeyError | ValueError

section \<open>Column selection\<close>

text \<open>
  \<open>checkbox_states\<close> is a dict from every column label to the state of its checkbox,
  in the order of the columns;
  \<^verbatim>\<open>feedback_cols = [col for col, checked in checkbox_states.items() if checked]\<close>.
\<close>

definition feedback_cols_of :: "(pystr \<times> bool) list \<Rightarrow> pystr list" where
  "feedback_cols_of checkbox_states = map fst (filter snd checkbox_states)"

section \<open>Wide to long\<close>

text \<open>
  A row of \<open>df_long\<close> after \<open>melt\<close>: the values of the identifier columns, then the columns
  \<open>Criterion\<close> and \<open>Response\<close>. The two columns assigned afterwards extend it; a missing
  value there is \<open>None\<close>.
\<close>

record long_row =
  ids :: "cell list"
  criterion :: pystr
  response :: cell

record cat_row = long_row +
  response_category :: "pystr option"
  sentiment :: "pystr option"

text \<open>
  \<open>DataFrame.melt\<close>, for value columns without repetition (here: the keys of a dict).
  pandas refuses a \<open>value_name\<close> that is already a column label of the frame (a
  \<open>ValueError\<close> since pandas 2.0) and identifier or value columns that the frame does not
  have (a \<open>KeyError\<close>). The result lists, for each value column in turn, one row per row of
  the frame: the values of the identifier columns, the label of the value column under
  \<open>var_name\<close> and the cell under \<open>value_name\<close>. An identifier column that is itself
  labelled \<open>var_name\<close> does not keep its values: the result has two columns of that label
  and both hold the label of the value column (pandas 2; pandas 3 raises a \<open>ValueError\<close>
  at this point, and the analysis below ends with that error under both).
\<close>

definition melt_rows :: "dataframe \<Rightarrow> pystr list \<Rightarrow> pystr \<Rightarrow> pystr \<Rightarrow> long_row list" where
  "melt_rows df id_vars var_name c =
     map (\<lambda>row. \<lparr>ids = map (\<lambda>i. if i = var_name then Text c else cell_of (columns df) row i)
                         id_vars,
                criterion = c,
                response = cell_of (columns df) row c\<rparr>) (rows df)"

definition melt ::
  "dataframe \<Rightarrow> pystr list \<Rightarrow> pystr list \<Rightarrow> pystr \<Rightarrow> pystr \<Rightarrow> error + long_row list" where
  "melt df id_vars value_vars var_name value_name =
     (if value_name \<in> set (columns df) then Inl ValueError
      else if \<not> set (id_vars @ value_vars) \<subseteq> set (columns df) then Inl KeyError
      else Inr (concat (map (melt_rows df id_vars var_name) value_vars)))"

section \<open>Categories and sentiments\<close>

definition response_to_category :: "(pystr \<times> pystr) list" where
  "response_to_category =
     [(ascii ''Strongly Agree '' @ [0x2705], ascii ''Strongly Agree''),
      (ascii ''Agree '' @ [0x270B, 0x1F3FB], ascii ''Agree''),
      (ascii ''Disagree '' @ [0x26A0, 0xFE0F], ascii ''Disagree''),
      (ascii ''Strongly Disagree '' @ [0x26D4, 0xFE0F], ascii ''Strongly Disagree'')]"

definition response_to_sentiment :: "(pystr \<times> pystr) list" where
  "response_to_sentiment =
     [(ascii ''Strongly Agree '' @ [0x2705], ascii ''Positive''),
      (ascii ''Agree '' @ [0x270B, 0x1F3FB], ascii ''Positive''),
      (ascii ''Disagree '' @ [0x26A0, 0xFE0F], ascii ''Negative''),
      (ascii ''Strongly Disagree '' @ [0x26D4, 0xFE0F], ascii ''Negative'')]"

text \<open>\<open>Series.map\<close> with a dict: a value that is not a key maps to NaN.\<close>

definition series_map :: "(pystr \<times> pystr) list \<Rightarrow> cell \<Rightarrow> pystr option" where
  "series_map d v = (case v of Text s \<Rightarrow> map_of d s | _ \<Rightarrow> None)"

definition categorize :: "long_row \<Rightarrow> cat_row" where
  "categorize r =
     \<lparr>ids = ids r, criterion = criterion r, response = response r,
      response_category = series_map response_to_category (response r),
      sentiment = series_map response_to_sentiment (response r)\<rparr>"

text \<open>\<^verbatim>\<open>df_long.dropna(subset=['Response Category', 'Sentiment'])\<close>\<close>

definition dropna :: "cat_row list \<Rightarrow> cat_row list" where
  "dropna rs = filter (\<lambda>r. response_category r \<noteq> None \<and> sentiment r \<noteq> None) rs"

section \<open>Counts, totals and percentages\<close>

text \<open>
  \<open>groupby(keys).size()\<close>: one entry per key that occurs, in ascending order of the
  keys, with the number of rows that have it. Rows with a missing key are left out.
\<close>

definition groupby_size :: "('r \<Rightarrow> 'k::linorder option) \<Rightarrow> 'r list \<Rightarrow> ('k \<times> nat) list" where
  "groupby_size key rs =
     (let ks = List.map_filter key rs
      in map (\<lambda>k. (k, length (filter (\<lambda>k'. k' = k) ks))) (sort (remdups ks)))"

definition key3 :: "cat_row \<Rightarrow> (pystr \<times> pystr \<times> pystr) option" where
  "key3 r = (case (response_category r, sentiment r) of
               (Some cat, Some s) \<Rightarrow> Some (criterion r, cat, s)
             | _ \<Rightarrow> None)"

definition df_counts :: "cat_row list \<Rightarrow> ((pystr \<times> pystr \<times> pystr) \<times> nat) list" where
  "df_counts df_long = groupby_size key3 df_long"

definition df_totals :: "cat_row list \<Rightarrow> (pystr \<times> nat) list" where
  "df_totals df_long = groupby_size (\<lambda>r. Some (criterion r)) df_long"

text \<open>\<open>pd.merge(df_counts, df_totals, on='Criterion')\<close>: an inner join, in the order of the left frame.\<close>

definition merge_on_Criterion ::
  "((pystr \<times> pystr \<times> pystr) \<times> nat) list \<Rightarrow> (pystr \<times> nat) list
     \<Rightarrow> (pystr \<times> pystr \<times> pystr \<times> nat \<times> nat) list" where
  "merge_on_Criterion counts totals =
     concat (map (\<lambda>((c, cat, s), n).
       map (\<lambda>(c', t). (c, cat, s, n, t)) (filter (\<lambda>(c', t). c' = c) totals)) counts)"

text \<open>
  A float64 value: a finite one as the rational it denotes, an infinity, or NaN. The sign
  of zero and the limits of the exponent are not modelled: the operands here are int64
  counts, far inside those limits.
\<close>

datatype float64 = Finite rat | PosInf | NegInf | NaN

text \<open>
  The integer nearest to \<open>N / D\<close>, and of two equally near ones the even one: the rounding
  of IEEE 754 arithmetic.
\<close>

definition round_half_even :: "nat \<Rightarrow> nat \<Rightarrow> nat" where
  "round_half_even N D =
     (let q = N div D; r = N mod D
      in if 2 * r < D then q else if D < 2 * r then q + 1
         else if even q then q else q + 1)"

text \<open>The least \<open>k\<close> with \<open>b \<le> a * 2 ^ k\<close>, and the greatest \<open>j\<close> with \<open>b * 2 ^ j \<le> a\<close>.\<close>

function binade_up :: "nat \<Rightarrow> nat \<Rightarrow> nat" where
  "binade_up a b = (if a = 0 \<or> b \<le> a then 0 else Suc (binade_up (2 * a) b))"
  by pat_completeness auto
termination
  by (relation "measure (\<lambda>(a, b). b - a)") auto

function binade_down :: "nat \<Rightarrow> nat \<Rightarrow> nat" where
  "binade_down a b = (if b = 0 \<or> a < 2 * b then 0 else Suc (binade_down a (2 * b)))"
  by pat_completeness auto
termination
  by (relation "measure (\<lambda>(a, b). a - b)") auto

declare binade_up.simps [simp del] binade_down.simps [simp del]

text \<open>
  The float64 quotient of two positive integers that are float64 values: \<open>a / b\<close> rounded
  to 53 significant bits. With \<open>k\<close> and \<open>j\<close> as above, \<open>a * 2 ^ (52 + k) / (b * 2 ^ j)\<close> lies
  between \<open>2 ^ 52\<close> and \<open>2 ^ 53\<close>; it is rounded to an integer and scaled back.
\<close>

definition float64_quot :: "nat \<Rightarrow> nat \<Rightarrow> rat" where
  "float64_quot a b =
     (let k = binade_up a b; j = binade_down a b
      in of_nat (round_half_even (a * 2 ^ (52 + k)) (b * 2 ^ j) * 2 ^ j) / of_nat (2 ^ (52 + k)))"

text \<open>
  The float64 value of an int64 count: the count itself up to 53 bits, beyond that the
  count rounded to its 53 leading bits.
\<close>

definition float64_of_nat :: "nat \<Rightarrow> nat" where
  "float64_of_nat n =
     (let j = binade_down n 1
      in if j \<le> 52 then n else round_half_even n (2 ^ (j - 52)) * 2 ^ (j - 52))"

record 'c agg_row =
  Criterion :: 'c
  Response_Category :: pystr
  Sentiment :: pystr
  Count :: nat
  Total :: nat
  Percentage :: float64
  Diverging_Percentage :: float64

text \<open>
  \<open>Count / Total\<close> divides two int64 columns: both are converted to float64 and the
  quotient is the float64 one; a zero divisor gives an infinity or NaN, not an error.
\<close>

definition percentage :: "nat \<Rightarrow> nat \<Rightarrow> float64" where
  "percentage n t =
     (if t = 0 then (if n = 0 then NaN else PosInf)
      else Finite (float64_quot (float64_of_nat n) (float64_of_nat t)))"

text \<open>\<open>x * -1\<close> in float64: the sign changes, nothing is rounded.\<close>

definition times_minus_one :: "float64 \<Rightarrow> float64" where
  "times_minus_one x =
     (case x of Finite p \<Rightarrow> Finite (- p) | PosInf \<Rightarrow> NegInf | NegInf \<Rightarrow> PosInf | NaN \<Rightarrow> NaN)"

text \<open>
  \<^verbatim>\<open>lambda row: row['Percentage'] * -1 if row['Sentiment'] == 'Negative' else row['Percentage']\<close>,
  applied row by row with \<open>apply(..., axis=1)\<close>; on a frame without rows that yields a
  column without entries (pandas 1.5 and later).
\<close>

definition diverging_percentage :: "pystr \<Rightarrow> float64 \<Rightarrow> float64" where
  "diverging_percentage s p = (if s = ascii ''Negative'' then times_minus_one p else p)"

definition perc_row :: "pystr \<times> pystr \<times> pystr \<times> nat \<times> nat \<Rightarrow> pystr agg_row" where
  "perc_row = (\<lambda>(c, cat, s, n, t).
     \<lparr>Criterion = c, Response_Category = cat, Sentiment = s, Count = n, Total = t,
      Percentage = percentage n t,
      Diverging_Percentage = diverging_percentage s (percentage n t)\<rparr>)"

definition df_perc :: "cat_row list \<Rightarrow> pystr agg_row list" where
  "df_perc df_long = map perc_row (merge_on_Criterion (df_counts df_long) (df_totals df_long))"

section \<open>Short names\<close>

text \<open>The decimal numeral of a natural number, as \<open>str\<close> and f-strings print it.\<close>

fun str_nat :: "nat \<Rightarrow> pystr" where
  "str_nat n = (if n < 10 then [48 + n] else str_nat (n div 10) @ [48 + n mod 10])"

declare str_nat.simps [simp del]

text \<open>
  \<^verbatim>\<open>f"{i+1}. {col_name[:60]}..." if len(col_name) > 60 else f"{i+1}. {col_name}"\<close>
\<close>

definition short_label :: "nat \<Rightarrow> pystr \<Rightarrow> pystr" where
  "short_label i col_name =
     (if length col_name > 60
      then str_nat (i + 1) @ ascii ''. '' @ take 60 col_name @ ascii ''...''
      else str_nat (i + 1) @ ascii ''. '' @ col_name)"

text \<open>
  The dict comprehension over \<open>enumerate(feedback_cols)\<close>: a key keeps the place of its
  first insertion and takes the value of its last one, as \<open>AList.update\<close> does.
\<close>

definition criterion_short_map :: "pystr list \<Rightarrow> (pystr \<times> pystr) list" where
  "criterion_short_map feedback_cols =
     fold (\<lambda>(i, col_name). AList.update col_name (short_label i col_name))
       (enumerate 0 feedback_cols) []"

text \<open>\<open>sorted(criterion_short_map.values())\<close>\<close>

definition sorted_criteria :: "pystr list \<Rightarrow> pystr list" where
  "sorted_criteria feedback_cols = sort (map snd (criterion_short_map feedback_cols))"

text \<open>\<^verbatim>\<open>df_perc['Criterion'] = df_perc['Criterion'].map(criterion_short_map)\<close>\<close>

definition relabel :: "(pystr \<times> pystr) list \<Rightarrow> pystr agg_row \<Rightarrow> pystr option agg_row" where
  "relabel m r =
     \<lparr>Criterion = map_of m (Criterion r), Response_Category = Response_Category r,
      Sentiment = Sentiment r, Count = Count r, Total = Total r,
      Percentage = Percentage r, Diverging_Percentage = Diverging_Percentage r\<rparr>"

section \<open>The analysis\<close>

record aggregate_result =
  total_responses :: nat
  aggregate_rows :: "pystr option agg_row list"
  criteria_order :: "pystr list"

text \<open>
  The analysis block, from the check of the selection to the data handed to the chart.
  After \<open>melt\<close>, an identifier column that is itself labelled \<open>Criterion\<close> leaves two
  columns of that label in \<open>df_long\<close>, and \<open>groupby\<close> refuses to group by a label that is
  not unique.
\<close>

definition aggregate :: "dataframe \<Rightarrow> pystr list \<Rightarrow> error + aggregate_result" where
  "aggregate df feedback_cols =
     (if feedback_cols = [] then Inl SelectionError
      else
        let id_vars = [col \<leftarrow> columns df. col \<notin> set feedback_cols] in
        case melt df id_vars feedback_cols (ascii ''Criterion'') (ascii ''Response'') of
          Inl e \<Rightarrow> Inl e
        | Inr melted \<Rightarrow>
            let df_long = dropna (map categorize melted) in
            if ascii ''Criterion'' \<in> set id_vars then Inl ValueError
            else Inr \<lparr>total_responses = len_df df,
                      aggregate_rows =
                        map (relabel (criterion_short_map feedback_cols)) (df_perc df_long),
                      criteria_order = sorted_criteria feedback_cols\<rparr>)"

section \<open>Auxiliary definitions\<close>

text \<open>The keys of \<open>df_counts\<close>, in its order.\<close>

definition group_keys :: "cat_row list \<Rightarrow> (pystr \<times> pystr \<times> pystr) list" where
  "group_keys rs = sort (remdups (List.map_filter key3 rs))"

text \<open>The merged row of a key: the key, its count, and the total of its criterion.\<close>

definition counted ::
  "cat_row list \<Rightarrow> pystr \<times> pystr \<times> pystr \<Rightarrow> pystr \<times> pystr \<times> pystr \<times> nat \<times> nat" where
  "counted rs k =
     (fst k, fst (snd k), snd (snd k),
      length (filter (\<lambda>r. key3 r = Some k) rs),
      length (filter (\<lambda>r. criterion r = fst k) rs))"

text \<open>
  \<open>df_long\<close> as the groupings see it: melted over the selection, with the two mapped
  columns, without the rows that miss a category or a sentiment.
\<close>

definition df_long :: "dataframe \<Rightarrow> pystr list \<Rightarrow> cat_row list" where
  "df_long df feedback_cols =
     dropna (map categorize
       (concat (map (melt_rows df [col \<leftarrow> columns df. col \<notin> set feedback_cols]
          (ascii ''Criterion'')) feedback_cols)))"

text \<open>The category and the sentiment of a cell, when it has both.\<close>

definition classify :: "cell \<Rightarrow> (pystr \<times> pystr) option" where
  "classify v = (case (series_map response_to_category v, series_map response_to_sentiment v) of
                  (Some cat, Some s) \<Rightarrow> Some (cat, s)
                | _ \<Rightarrow> None)"

text \<open>A cell is recognised when it is exactly one of the four response literals.\<close>

definition recognised :: "cell \<Rightarrow> bool" where
  "recognised v \<longleftrightarrow> v \<in> Text ` fst ` set response_to_category"

text \<open>
  The labels that the analysis cannot take: \<open>Response\<close> on any column, \<open>Criterion\<close> on a
  column that is not selected.
\<close>

definition name_clash :: "dataframe \<Rightarrow> pystr list \<Rightarrow> bool" where
  "name_clash df feedback_cols \<longleftrightarrow>
     ascii ''Response'' \<in> set (columns df) \<or>
     ascii ''Criterion'' \<in> set (columns df) \<and> ascii ''Criterion'' \<notin> set feedback_cols"

text \<open>The result of the analysis when nothing raises.\<close>

definition chart_data :: "dataframe \<Rightarrow> pystr list \<Rightarrow> aggregate_result" where
  "chart_data df feedback_cols =
     \<lparr>total_responses = len_df df,
      aggregate_rows =
        map (relabel (criterion_short_map feedback_cols)) (df_perc (df_long df feedback_cols)),
      criteria_order = sorted_criteria feedback_cols\<rparr>"

text \<open>The output row of a key.\<close>

definition out_row :: "dataframe \<Rightarrow> pystr list \<Rightarrow> pystr \<times> pystr \<times> pystr \<Rightarrow> pystr option agg_row" where
  "out_row df feedback_cols k =
     relabel (criterion_short_map feedback_cols) (perc_row (counted (df_long df feedback_cols) k))"

text \<open>
  A table of three rows with one question column, and the rows expected from it; the
  percentages are the float64 values nearest to 1/3 and 2/3.
\<close>

definition example_df :: dataframe where
  "example_df =
     \<lparr>columns = [ascii ''Q1''],
      rows = [[Text (ascii ''Strongly Agree '' @ [0x2705])],
              [Text (ascii ''Disagree '' @ [0x26A0, 0xFE0F])],
              [Text (ascii ''Strongly Agree '' @ [0x2705])]]\<rparr>"

definition example_rows :: "pystr option agg_row list" where
  "example_rows =
     [\<lparr>Criterion = Some (ascii ''1. Q1''), Response_Category = ascii ''Disagree'',
       Sentiment = ascii ''Negative'', Count = 1, Total = 3,
       Percentage = Finite (6004799503160661 / 18014398509481984),
       Diverging_Percentage = Finite (- (6004799503160661 / 18014398509481984))\<rparr>,
      \<lparr>Criterion = Some (ascii ''1. Q1''), Response_Category = ascii ''Strongly Agree'',
       Sentiment = ascii ''Positive'', Count = 2, Total = 3,
       Percentage = Finite (6004799503160661 / 9007199254740992),
       Diverging_Percentage = Finite (6004799503160661 / 9007199254740992)\<rparr>]"

text \<open>
  A table of five rows whose question column holds two recognised responses among a
  text that is no response, a blank and a number; and the rows expected from it.
\<close>

definition mixed_df :: dataframe where
  "mixed_df =
     \<lparr>columns = [ascii ''Q1''],
      rows = [[Text (ascii ''Strongly Agree '' @ [0x2705])],
              [Text (ascii ''N/A'')],
              [Blank],
              [Number 5],
              [Text (ascii ''Disagree '' @ [0x26A0, 0xFE0F])]]\<rparr>"

definition mixed_rows :: "pystr option agg_row list" where
  "mixed_rows =
     [\<lparr>Criterion = Some (ascii ''1. Q1''), Response_Category = ascii ''Disagree'',
       Sentiment = ascii ''Negative'', Count = 1, Total = 2,
       Percentage = Finite (1 / 2), Diverging_Percentage = Finite (- (1 / 2))\<rparr>,
      \<lparr>Criterion = Some (ascii ''1. Q1''), Response_Category = ascii ''Strongly Agree'',
       Sentiment = ascii ''Positive'', Count = 1, Total = 2,
       Percentage = Finite (1 / 2), Diverging_Percentage = Finite (1 / 2)\<rparr>]"

text \<open>
  A table with two question columns, the second of which holds no recognised response.
\<close>

definition unanswered_df :: dataframe where
  "unanswered_df =
     \<lparr>columns = [ascii ''Q1'', ascii ''Q2''],
      rows = [[Text (ascii ''Strongly Agree '' @ [0x2705]), Text (ascii ''N/A'')],
              [Text (ascii ''Agree '' @ [0x270B, 0x1F3FB]), Text (ascii ''N/A'')]]\<rparr>"

text \<open>
  A table with a name column beside two question columns, of which the second is selected.
\<close>

definition named_df :: dataframe where
  "named_df =
     \<lparr>columns = [ascii ''Name'', ascii ''Q1'', ascii ''Q2''],
      rows = [[Text (ascii ''Ann''), Blank, Text (ascii ''Agree '' @ [0x270B, 0x1F3FB])],
              [Text (ascii ''Bob''), Number 4, Text (ascii ''N/A'')]]\<rparr>"

text \<open>Two column names of 70 code points that share their first 60.\<close>

definition long_name :: pystr where
  "long_name = ascii ''How clearly did the teacher explain the aims of every lesson this term''"

definition long_name' :: pystr where
  "long_name' = ascii ''How clearly did the teacher explain the aims of every lesson this year''"

text \<open>Ten columns, named \<open>a\<close> to \<open>j\<close>.\<close>

definition ten_cols :: "pystr list" where
  "ten_cols = [ascii ''a'', ascii ''b'', ascii ''c'', ascii ''d'', ascii ''e'',
               ascii ''f'', ascii ''g'', ascii ''h'', ascii ''i'', ascii ''j'']"

text \<open>The ten columns, an eleventh, and a twelfth with the long name.\<close>

definition twelve_cols :: "pystr list" where
  "twelve_cols = ten_cols @ [ascii ''k'', long_name]"

text \<open>
  What the claims call the string of a number, said without the function that computes
  it: the number that a string of decimal digits denotes, and the strings that are the
  decimal numeral of a number, made of digits, without a leading zero, and denoting it.
\<close>

definition decimal_value :: "pystr \<Rightarrow> nat" where
  "decimal_value ds = foldl (\<lambda>v d. 10 * v + (d - 48)) 0 ds"

definition decimal_numeral :: "pystr \<Rightarrow> nat \<Rightarrow> bool" where
  "decimal_numeral ds n \<longleftrightarrow>
     ds \<noteq> [] \<and> list_all (\<lambda>d. 48 \<le> d \<and> d \<le> 57) ds \<and> (hd ds = 48 \<longrightarrow> ds = [48]) \<and>
     decimal_value ds = n"



section \<open>Numerals and labels\<close>

lemma str_nat_nonempty: "str_nat n \<noteq> []"
  by (subst str_nat.simps) simp

lemma str_nat_digits: "d \<in> set (str_nat n) \<Longrightarrow> 48 \<le> d \<and> d \<le> 57"
proof (induction n rule: str_nat.induct)
  case (1 n)
  show ?case
  proof (cases "n < 10")
    case True
    with "1.prems" show ?thesis by (subst (asm) str_nat.simps) simp
  next
    case False
    with "1.prems" have "d \<in> set (str_nat (n div 10)) \<or> d = 48 + n mod 10"
      by (subst (asm) str_nat.simps) auto
    then show ?thesis
    proof
      assume "d \<in> set (str_nat (n div 10))"
      with "1.IH" False show ?thesis by simp
    next
      assume "d = 48 + n mod 10"
      then show ?thesis by simp
    qed
  qed
qed

lemma str_nat_inj: "str_nat m = str_nat n \<Longrightarrow> m = n"
proof (induction m arbitrary: n rule: str_nat.induct)
  case (1 m)
  show ?case
  proof (cases "m < 10")
    case m: True
    show ?thesis
    proof (cases "n < 10")
      case True
      with m "1.prems" show ?thesis
        by (simp add: str_nat.simps [of m] str_nat.simps [of n])
    next
      case False
      with m "1.prems" show ?thesis
        using str_nat_nonempty [of "n div 10"]
        by (simp add: str_nat.simps [of m] str_nat.simps [of n])
    qed
  next
    case m: False
    show ?thesis
    proof (cases "n < 10")
      case True
      with m "1.prems" show ?thesis
        using str_nat_nonempty [of "m div 10"]
        by (simp add: str_nat.simps [of m] str_nat.simps [of n])
    next
      case False
      with m "1.prems" have eq: "str_nat (m div 10) = str_nat (n div 10)" "m mod 10 = n mod 10"
        by (simp_all add: str_nat.simps [of m] str_nat.simps [of n])
      from "1.IH" [OF m eq(1)] have "m div 10 = n div 10" .
      with eq(2) show ?thesis
        by (metis div_mult_mod_eq)
    qed
  qed
qed

lemma append_sep_unique:
  assumes "xs @ a # x = ys @ a # y" "a \<notin> set xs" "a \<notin> set ys"
  shows "xs = ys"
proof -
  have "takeWhile (\<lambda>z. z \<noteq> a) (xs @ a # x) = xs"
    using assms(2) by (auto simp: takeWhile_tail)
  moreover have "takeWhile (\<lambda>z. z \<noteq> a) (ys @ a # y) = ys"
    using assms(3) by (auto simp: takeWhile_tail)
  ultimately show ?thesis using assms(1) by simp
qed

lemma short_label_prefix:
  "\<exists>rest. short_label i c = str_nat (i + 1) @ 46 # rest"
  by (simp add: short_label_def ascii_def)

lemma short_label_index_inj:
  assumes "short_label i c = short_label j c'"
  shows "i = j"
proof -
  obtain x where x: "short_label i c = str_nat (i + 1) @ 46 # x"
    using short_label_prefix by blast
  obtain y where y: "short_label j c' = str_nat (j + 1) @ 46 # y"
    using short_label_prefix by blast
  have "46 \<notin> set (str_nat (i + 1))" "46 \<notin> set (str_nat (j + 1))"
    using str_nat_digits by fastforce+
  with assms x y have "str_nat (i + 1) = str_nat (j + 1)"
    using append_sep_unique by metis
  then show ?thesis using str_nat_inj by fastforce
qed

lemma criterion_short_map_snoc:
  "criterion_short_map (xs @ [x]) =
     AList.update x (short_label (length xs) x) (criterion_short_map xs)"
  by (simp add: criterion_short_map_def enumerate_append_eq)

lemma criterion_short_map_Nil: "criterion_short_map [] = []"
  by (simp add: criterion_short_map_def)

lemma criterion_short_map_lookup:
  "c \<in> set fc \<Longrightarrow>
     \<exists>i<length fc. fc ! i = c \<and> map_of (criterion_short_map fc) c = Some (short_label i c)"
proof (induction fc rule: rev_induct)
  case Nil
  then show ?case by simp
next
  case (snoc x xs)
  show ?case
  proof (cases "c = x")
    case True
    then have "map_of (criterion_short_map (xs @ [x])) c = Some (short_label (length xs) c)"
      by (simp add: criterion_short_map_snoc update_conv')
    with True show ?thesis by (intro exI [of _ "length xs"]) simp
  next
    case False
    with snoc.prems have "c \<in> set xs" by simp
    from snoc.IH [OF this] obtain i where i: "i < length xs" "xs ! i = c"
      "map_of (criterion_short_map xs) c = Some (short_label i c)" by blast
    with False have "map_of (criterion_short_map (xs @ [x])) c = Some (short_label i c)"
      by (simp add: criterion_short_map_snoc update_conv')
    with i show ?thesis by (intro exI [of _ i]) (simp add: nth_append)
  qed
qed

lemma criterion_short_map_keys: "fst ` set (criterion_short_map fc) = set fc"
  by (induction fc rule: rev_induct)
     (auto simp: criterion_short_map_Nil criterion_short_map_snoc dom_update)

lemma update_fresh: "x \<notin> fst ` set al \<Longrightarrow> AList.update x v al = al @ [(x, v)]"
  by (induction al) auto

lemma criterion_short_map_distinct:
  "distinct fc \<Longrightarrow>
     criterion_short_map fc = map (\<lambda>(i, c). (c, short_label i c)) (enumerate 0 fc)"
proof (induction fc rule: rev_induct)
  case Nil
  then show ?case by (simp add: criterion_short_map_Nil)
next
  case (snoc x xs)
  then have IH: "criterion_short_map xs = map (\<lambda>(i, c). (c, short_label i c)) (enumerate 0 xs)"
    and x: "x \<notin> set xs" by simp_all
  note upd = update_fresh
  have "x \<notin> fst ` set (criterion_short_map xs)"
    using x by (simp add: criterion_short_map_keys)
  then show ?case
    by (simp add: criterion_short_map_snoc upd IH enumerate_append_eq)
qed

lemma label_10_before_2: "short_label 9 c < short_label 1 c'"
  by (simp add: short_label_def str_nat.simps ascii_def)

section \<open>Rounding\<close>

lemma round_half_even_lower:
  assumes "0 < D" "M * D \<le> N"
  shows "M \<le> round_half_even N D"
proof -
  from assms have "M \<le> N div D"
    by (simp add: less_eq_div_iff_mult_less_eq)
  then show ?thesis by (simp add: round_half_even_def Let_def)
qed

lemma round_half_even_upper:
  assumes "0 < D" "N \<le> M * D"
  shows "round_half_even N D \<le> M"
proof (cases "N mod D = 0")
  case True
  from assms have "N div D \<le> M"
    by (metis div_le_mono div_mult_self_is_m)
  with True assms(1) show ?thesis by (simp add: round_half_even_def Let_def)
next
  case False
  have "N div D < M"
  proof (rule ccontr)
    assume "\<not> N div D < M"
    then have "M * D \<le> (N div D) * D" by simp
    also have "\<dots> < N" using False by (metis div_mult_mod_eq less_add_same_cancel1 neq0_conv)
    finally show False using assms(2) by simp
  qed
  then show ?thesis by (simp add: round_half_even_def Let_def)
qed

lemma round_half_even_mono:
  assumes "0 < D" "N \<le> N'"
  shows "round_half_even N D \<le> round_half_even N' D"
proof (cases "N div D = N' div D")
  case True
  have "N mod D \<le> N' mod D"
    using assms(2) True by (metis add_le_cancel_left div_mult_mod_eq)
  with True show ?thesis by (auto simp: round_half_even_def Let_def)
next
  case False
  with assms(2) have "N div D < N' div D"
    by (simp add: div_le_mono le_neq_implies_less)
  then show ?thesis by (auto simp: round_half_even_def Let_def)
qed

lemma binade_up_bound: "0 < a \<Longrightarrow> b \<le> a * 2 ^ binade_up a b"
proof (induction a b rule: binade_up.induct)
  case (1 a b)
  show ?case
  proof (cases "b \<le> a")
    case True
    then show ?thesis by (subst binade_up.simps) simp
  next
    case False
    with 1 have "b \<le> 2 * a * 2 ^ binade_up (2 * a) b" by simp
    with False "1.prems" show ?thesis by (subst binade_up.simps) (simp add: mult.assoc)
  qed
qed

lemma binade_down_bounds:
  "0 < b \<Longrightarrow> b \<le> a \<Longrightarrow> b * 2 ^ binade_down a b \<le> a \<and> a < b * 2 ^ Suc (binade_down a b)"
proof (induction a b rule: binade_down.induct)
  case (1 a b)
  show ?case
  proof (cases "a < 2 * b")
    case True
    with "1.prems" show ?thesis by (subst (1 2) binade_down.simps) simp
  next
    case False
    with 1 have "2 * b * 2 ^ binade_down a (2 * b) \<le> a \<and>
        a < 2 * b * 2 ^ Suc (binade_down a (2 * b))" by simp
    with False "1.prems" show ?thesis
      by (subst (1 2) binade_down.simps) (simp add: mult.assoc)
  qed
qed

lemma binade_down_small: "a < 2 * b \<Longrightarrow> binade_down a b = 0"
  by (subst binade_down.simps) simp

lemma float64_quot_bounds:
  assumes "0 < a" "a \<le> b"
  shows "0 < float64_quot a b" and "float64_quot a b \<le> 1"
proof -
  let ?k = "binade_up a b"
  let ?m = "round_half_even (a * 2 ^ (52 + ?k)) b"
  from assms have j: "binade_down a b = 0" by (intro binade_down_small) simp
  then have q: "float64_quot a b = of_nat ?m / of_nat (2 ^ (52 + ?k))"
    by (simp add: float64_quot_def Let_def)
  from assms have b: "0 < b" by simp
  have "2 ^ 52 * b \<le> a * 2 ^ (52 + ?k)"
    using binade_up_bound [OF assms(1), of b] by (simp add: power_add)
  then have "2 ^ 52 \<le> ?m" by (rule round_half_even_lower [OF b])
  then have "0 < ?m" by (metis less_le_trans zero_less_numeral zero_less_power)
  then show "0 < float64_quot a b" by (simp add: q)
  have "a * 2 ^ (52 + ?k) \<le> 2 ^ (52 + ?k) * b"
    using assms(2) by (simp add: mult.commute)
  then have "?m \<le> 2 ^ (52 + ?k)" by (rule round_half_even_upper [OF b])
  then have "(of_nat ?m :: rat) \<le> of_nat (2 ^ (52 + ?k))" by (simp only: of_nat_le_iff)
  then show "float64_quot a b \<le> 1" by (simp add: q divide_le_eq_1)
qed

lemma float64_of_nat_bounds:
  assumes "0 < n"
  shows "2 ^ binade_down n 1 \<le> float64_of_nat n"
    and "float64_of_nat n \<le> 2 ^ Suc (binade_down n 1)"
proof -
  let ?j = "binade_down n 1"
  from binade_down_bounds [of 1 n] assms have n: "2 ^ ?j \<le> n" "n < 2 ^ Suc ?j" by simp_all
  show "2 ^ ?j \<le> float64_of_nat n"
  proof (cases "?j \<le> 52")
    case True
    with n show ?thesis by (simp add: float64_of_nat_def Let_def)
  next
    case False
    then have j: "?j = 52 + (?j - 52)" by simp
    have "2 ^ 52 * 2 ^ (?j - 52) \<le> n"
      using n(1) by (subst (asm) j) (simp add: power_add)
    then have "2 ^ 52 \<le> round_half_even n (2 ^ (?j - 52))"
      by (intro round_half_even_lower) simp_all
    then have "2 ^ 52 * 2 ^ (?j - 52) \<le> round_half_even n (2 ^ (?j - 52)) * 2 ^ (?j - 52)"
      by simp
    then have "2 ^ ?j \<le> round_half_even n (2 ^ (?j - 52)) * 2 ^ (?j - 52)"
      by (subst j) (simp add: power_add)
    with False show ?thesis by (simp add: float64_of_nat_def Let_def)
  qed
  show "float64_of_nat n \<le> 2 ^ Suc ?j"
  proof (cases "?j \<le> 52")
    case True
    with n show ?thesis by (simp add: float64_of_nat_def Let_def)
  next
    case False
    then have j: "Suc ?j = 53 + (?j - 52)" by simp
    have "n \<le> 2 ^ 53 * 2 ^ (?j - 52)"
      using n(2) by (subst (asm) j) (simp add: power_add)
    then have "round_half_even n (2 ^ (?j - 52)) \<le> 2 ^ 53"
      by (intro round_half_even_upper) simp_all
    then have "round_half_even n (2 ^ (?j - 52)) * 2 ^ (?j - 52) \<le> 2 ^ 53 * 2 ^ (?j - 52)"
      by simp
    then have "round_half_even n (2 ^ (?j - 52)) * 2 ^ (?j - 52) \<le> 2 ^ Suc ?j"
      by (subst j) (simp add: power_add)
    with False show ?thesis by (simp add: float64_of_nat_def Let_def)
  qed
qed

lemma float64_of_nat_pos: "0 < n \<Longrightarrow> 0 < float64_of_nat n"
  using float64_of_nat_bounds(1) [of n]
  by (metis less_le_trans zero_less_numeral zero_less_power)

lemma binade_down_mono:
  assumes "0 < n" "n \<le> t"
  shows "binade_down n 1 \<le> binade_down t 1"
proof -
  from binade_down_bounds [of 1 n] assms have "2 ^ binade_down n 1 \<le> n" by simp
  also note assms(2)
  also from binade_down_bounds [of 1 t] assms have "t < 2 ^ Suc (binade_down t 1)" by simp
  finally have "binade_down n 1 < Suc (binade_down t 1)"
    by (simp only: power_strict_increasing_iff [of "2::nat"] rel_simps)
  then show ?thesis by simp
qed

lemma float64_of_nat_mono:
  assumes "0 < n" "n \<le> t"
  shows "float64_of_nat n \<le> float64_of_nat t"
proof -
  let ?j = "binade_down n 1" and ?j' = "binade_down t 1"
  from assms have t: "0 < t" by simp
  from binade_down_mono [OF assms] have jj: "?j \<le> ?j'" .
  show ?thesis
  proof (cases "?j = ?j'")
    case True
    show ?thesis
    proof (cases "?j \<le> 52")
      case le: True
      with True assms(2) show ?thesis by (simp add: float64_of_nat_def Let_def)
    next
      case False
      have "round_half_even n (2 ^ (?j - 52)) \<le> round_half_even t (2 ^ (?j - 52))"
        using assms(2) by (intro round_half_even_mono) simp_all
      with False True show ?thesis by (simp add: float64_of_nat_def Let_def)
    qed
  next
    case False
    with jj have "Suc ?j \<le> ?j'" by simp
    then have "(2::nat) ^ Suc ?j \<le> 2 ^ ?j'" by (simp only: power_increasing_iff rel_simps)
    with float64_of_nat_bounds(2) [OF assms(1)] float64_of_nat_bounds(1) [OF t]
    show ?thesis by linarith
  qed
qed

lemma percentage_bounds:
  assumes "0 < n" "n \<le> t"
  shows "\<exists>p. percentage n t = Finite p \<and> 0 < p \<and> p \<le> 1"
  using assms float64_quot_bounds [OF float64_of_nat_pos [OF assms(1)] float64_of_nat_mono [OF assms]]
  by (simp add: percentage_def)

lemma round_half_even_error:
  assumes "0 < D"
  shows "2 * round_half_even N D * D \<le> 2 * N + D" and "2 * N \<le> 2 * round_half_even N D * D + D"
proof -
  have N: "N = N div D * D + N mod D" by simp
  have r: "N mod D < D" using assms by simp
  let ?q = "N div D" and ?r = "N mod D"
  have up: "2 * (?q + 1) * D = 2 * (?q * D) + 2 * D" by (simp add: algebra_simps)
  have dn: "2 * ?q * D = 2 * (?q * D)" by (simp add: algebra_simps)
  have N2: "2 * N = 2 * (?q * D) + 2 * ?r" by (metis N distrib_left)
  show "2 * round_half_even N D * D \<le> 2 * N + D"
    unfolding round_half_even_def Let_def using r
    by (simp only: up dn N2 split: if_splits) auto
  show "2 * N \<le> 2 * round_half_even N D * D + D"
    unfolding round_half_even_def Let_def using r
    by (simp only: up dn N2 split: if_splits) auto
qed

lemma float64_of_nat_exact: "n < 2 ^ 53 \<Longrightarrow> float64_of_nat n = n"
proof (cases "n = 0")
  case True
  then show ?thesis by (simp add: float64_of_nat_def Let_def binade_down_small)
next
  case False
  assume n: "n < 2 ^ 53"
  from binade_down_bounds [of 1 n] False have "2 ^ binade_down n 1 \<le> n" by simp
  with n have "(2::nat) ^ binade_down n 1 < 2 ^ 53" by linarith
  then have "binade_down n 1 < 53" by (simp only: power_strict_increasing_iff rel_simps)
  then show ?thesis by (simp add: float64_of_nat_def Let_def)
qed

lemma float64_quot_error:
  assumes "0 < a" "a \<le> b"
  shows "\<bar>float64_quot a b - of_nat a / of_nat b\<bar> \<le> 1 / 2 ^ 53"
proof -
  let ?k = "binade_up a b"
  let ?N = "a * 2 ^ (52 + ?k)"
  let ?m = "round_half_even ?N b"
  let ?P = "(2::rat) ^ (52 + ?k)"
  from assms have b: "0 < b" by simp
  from assms have j: "binade_down a b = 0" by (intro binade_down_small) simp
  then have q: "float64_quot a b = of_nat ?m / ?P"
    by (simp add: float64_quot_def Let_def)
  have P: "0 < ?P" by simp
  have B: "(0::rat) < of_nat b" using b by simp
  define x :: rat where "x = of_nat ?m * of_nat b"
  define y :: rat where "y = of_nat a * ?P"
  from round_half_even_error [OF b, of ?N]
  have "(of_nat (2 * ?m * b) :: rat) \<le> of_nat (2 * ?N + b)"
    and "(of_nat (2 * ?N) :: rat) \<le> of_nat (2 * ?m * b + b)"
    by (simp_all only: of_nat_le_iff)
  then have "2 * x \<le> 2 * y + of_nat b" "2 * y \<le> 2 * x + of_nat b"
    by (simp_all add: x_def y_def algebra_simps)
  then have "\<bar>x - y\<bar> \<le> of_nat b / 2" by linarith
  then have e: "\<bar>of_nat ?m * of_nat b - of_nat a * ?P\<bar> \<le> (of_nat b :: rat) / 2"
    by (simp only: x_def y_def)
  have "float64_quot a b - of_nat a / of_nat b =
      (of_nat ?m * of_nat b - of_nat a * ?P) / (?P * of_nat b)"
    using b by (simp add: q field_simps)
  then have "\<bar>float64_quot a b - of_nat a / of_nat b\<bar> =
      \<bar>of_nat ?m * of_nat b - of_nat a * ?P\<bar> / (?P * of_nat b)"
    using P B by (simp add: abs_mult)
  also have "\<dots> \<le> (of_nat b / 2) / (?P * of_nat b)"
    using e P B by (intro divide_right_mono) simp_all
  also have "\<dots> = 1 / (2 * ?P)" using B by simp
  also have "\<dots> \<le> 1 / 2 ^ 53"
  proof -
    have "(2::rat) ^ 53 \<le> 2 ^ (53 + ?k)" by (intro power_increasing) simp_all
    also have "\<dots> = 2 * ?P"
    proof -
      have "53 + ?k = Suc (52 + ?k)" by simp
      then show ?thesis by (simp only: power_Suc)
    qed
    finally show ?thesis by (intro divide_left_mono) simp_all
  qed
  finally show ?thesis .
qed

lemma percentage_value:
  assumes "0 < n" "n \<le> t"
  shows "\<exists>p. percentage n t = Finite p \<and> 0 < p \<and> p \<le> 1 \<and>
           p = float64_quot (float64_of_nat n) (float64_of_nat t) \<and>
           (t < 2 ^ 53 \<longrightarrow> \<bar>p - of_nat n / of_nat t\<bar> \<le> 1 / 2 ^ 53)"
proof -
  let ?p = "float64_quot (float64_of_nat n) (float64_of_nat t)"
  from assms have t: "0 < t" by simp
  have "percentage n t = Finite ?p" using t by (simp add: percentage_def)
  moreover have "0 < ?p" "?p \<le> 1"
    using float64_quot_bounds [OF float64_of_nat_pos [OF assms(1)] float64_of_nat_mono [OF assms]]
    by simp_all
  moreover have "\<bar>?p - of_nat n / of_nat t\<bar> \<le> 1 / 2 ^ 53" if "t < 2 ^ 53"
  proof -
    from that assms(2) have "n < 2 ^ 53" by simp
    then show ?thesis
      using float64_quot_error [OF assms] that by (simp add: float64_of_nat_exact)
  qed
  ultimately show ?thesis by blast
qed

section \<open>Groups\<close>

lemma count_map_filter:
  "length (filter (\<lambda>k'. k' = k) (List.map_filter key rs)) =
     length (filter (\<lambda>r. key r = Some k) rs)"
  by (induction rs) (auto split: option.splits)

lemma set_map_filter: "set (List.map_filter key rs) = {k. \<exists>r \<in> set rs. key r = Some k}"
  by (induction rs) (auto split: option.splits)

lemma groupby_size_eq:
  "groupby_size key rs =
     map (\<lambda>k. (k, length (filter (\<lambda>r. key r = Some k) rs)))
       (sort (remdups (List.map_filter key rs)))"
  by (simp add: groupby_size_def Let_def count_map_filter)

lemma distinct_group_keys: "distinct (group_keys rs)"
  by (simp add: group_keys_def)

lemma set_group_keys: "set (group_keys rs) = {k. \<exists>r \<in> set rs. key3 r = Some k}"
  by (simp add: group_keys_def set_map_filter)

lemma key3_criterion: "key3 r = Some (c, cat, s) \<Longrightarrow> criterion r = c"
  by (auto simp: key3_def split: option.splits)

lemma filter_key_distinct:
  "distinct ks \<Longrightarrow> c \<in> set ks \<Longrightarrow>
     filter (\<lambda>(c', t). c' = c) (map (\<lambda>k. (k, g k)) ks) = [(c, g c)]"
proof (induction ks)
  case Nil
  then show ?case by simp
next
  case (Cons k ks)
  show ?case
  proof (cases "k = c")
    case True
    with Cons.prems have "c \<notin> set ks" by simp
    then have "filter (\<lambda>(c', t). c' = c) (map (\<lambda>k. (k, g k)) ks) = []"
      by (auto simp: filter_empty_conv)
    with True show ?thesis by simp
  next
    case False
    with Cons show ?thesis by simp
  qed
qed

lemma concat_singletons: "concat (map (\<lambda>x. [f x]) xs) = map f xs"
  by (induction xs) auto

lemma df_perc_eq: "df_perc rs = map (\<lambda>k. perc_row (counted rs k)) (group_keys rs)"
proof -
  let ?tot = "\<lambda>c. length (filter (\<lambda>r. criterion r = c) rs)"
  let ?cs = "sort (remdups (List.map_filter (\<lambda>r. Some (criterion r)) rs))"
  have one: "filter (\<lambda>(c', t). c' = c) (map (\<lambda>k. (k, ?tot k)) ?cs) = [(c, ?tot c)]"
    if "(c, cat, s) \<in> set (group_keys rs)" for c cat s
  proof -
    from that obtain r where "r \<in> set rs" "key3 r = Some (c, cat, s)"
      by (auto simp: set_group_keys)
    then have "c \<in> set ?cs"
      by (auto simp: set_map_filter dest: key3_criterion)
    then show ?thesis by (intro filter_key_distinct) simp_all
  qed
  have "merge_on_Criterion (df_counts rs) (df_totals rs) =
          concat (map (\<lambda>k. [counted rs k]) (group_keys rs))"
    unfolding merge_on_Criterion_def df_counts_def df_totals_def groupby_size_eq
      group_keys_def [symmetric] map_map
    by (rule arg_cong [where f = concat], rule map_cong) (auto simp: one counted_def)
  then show ?thesis by (simp add: df_perc_def)
qed

lemma sum_indicator:
  "distinct ks \<Longrightarrow> a \<in> set ks \<Longrightarrow>
     sum_list (map (\<lambda>k. if a = k then 1 else 0) (filter P ks)) = (if P a then 1 else (0::nat))"
  by (induction ks) auto

lemma sum_zero: "sum_list (map (\<lambda>k. 0::nat) ks) = 0"
  by (induction ks) auto

lemma sum_counts:
  "distinct ks \<Longrightarrow> {k. \<exists>r \<in> set rs. key r = Some k} \<subseteq> set ks \<Longrightarrow>
     sum_list (map (\<lambda>k. length (filter (\<lambda>r. key r = Some k) rs)) (filter P ks)) =
       length (filter (\<lambda>r. case key r of Some k \<Rightarrow> P k | None \<Rightarrow> False) rs)"
proof (induction rs)
  case Nil
  then show ?case by (simp add: sum_zero)
next
  case (Cons r rs)
  then have IH: "sum_list (map (\<lambda>k. length (filter (\<lambda>r. key r = Some k) rs)) (filter P ks)) =
       length (filter (\<lambda>r. case key r of Some k \<Rightarrow> P k | None \<Rightarrow> False) rs)"
    by auto
  show ?case
  proof (cases "key r")
    case None
    with IH show ?thesis by simp
  next
    case (Some a)
    with Cons.prems have a: "a \<in> set ks" by auto
    have "sum_list (map (\<lambda>k. length (filter (\<lambda>r. key r = Some k) (r # rs))) (filter P ks)) =
      sum_list (map (\<lambda>k. (if a = k then 1 else 0) + length (filter (\<lambda>r. key r = Some k) rs))
        (filter P ks))"
      using Some by (intro arg_cong [where f = sum_list] map_cong) auto
    also have "\<dots> = (if P a then 1 else 0) +
        length (filter (\<lambda>r. case key r of Some k \<Rightarrow> P k | None \<Rightarrow> False) rs)"
      by (simp add: sum_list_addf sum_indicator [OF Cons.prems(1) a] IH)
    finally show ?thesis using Some by simp
  qed
qed

section \<open>The analysis in closed form\<close>

text \<open>
  The selection is read off a dict whose keys are the columns of the table, so it has no
  repetition and lies among the columns.
\<close>

lemma feedback_cols_of_selection:
  assumes "map fst checkbox_states = columns df" "distinct (columns df)"
  shows "distinct (feedback_cols_of checkbox_states)"
    and "set (feedback_cols_of checkbox_states) \<subseteq> set (columns df)"
proof -
  from assms have "distinct (map fst checkbox_states)" by simp
  then show "distinct (feedback_cols_of checkbox_states)"
    unfolding feedback_cols_of_def by (rule distinct_map_filter)
  have "set (feedback_cols_of checkbox_states) \<subseteq> set (map fst checkbox_states)"
    by (auto simp: feedback_cols_of_def)
  with assms(1) show "set (feedback_cols_of checkbox_states) \<subseteq> set (columns df)"
    by simp
qed

lemma aggregate_cases:
  assumes "set fc \<subseteq> set (columns df)"
  shows "aggregate df fc =
     (if fc = [] then Inl SelectionError
      else if name_clash df fc then Inl ValueError
      else Inr (chart_data df fc))"
  using assms
  by (auto simp: aggregate_def melt_def Let_def name_clash_def chart_data_def df_long_def)

lemma aggregate_InrD:
  assumes "aggregate df fc = Inr res"
  shows "fc \<noteq> []" "set fc \<subseteq> set (columns df)" "\<not> name_clash df fc" "res = chart_data df fc"
  using assms
  by (auto simp: aggregate_def melt_def Let_def name_clash_def chart_data_def df_long_def
      split: if_splits)

lemma aggregate_error_rows:
  "aggregate df fc = Inl e \<Longrightarrow> aggregate (df\<lparr>rows := rs\<rparr>) fc = Inl e"
  by (auto simp: aggregate_def melt_def Let_def split: if_splits)

lemma classify_key3:
  "key3 (categorize r) = map_option (\<lambda>(cat, s). (criterion r, cat, s)) (classify (response r))"
  by (simp add: key3_def categorize_def classify_def split: option.splits)

lemma df_long_classified:
  assumes "r \<in> set (df_long df fc)"
  shows "\<exists>cat s. key3 r = Some (criterion r, cat, s) \<and> classify (response r) = Some (cat, s)"
proof -
  from assms obtain r' where r: "r = categorize r'"
    and keep: "response_category r \<noteq> None" "sentiment r \<noteq> None"
    by (auto simp: df_long_def dropna_def)
  then show ?thesis
    by (auto simp: key3_def categorize_def classify_def)
qed

lemma melt_rows_criterion: "r \<in> set (melt_rows df iv vn c) \<Longrightarrow> criterion r = c"
  by (auto simp: melt_rows_def)

lemma melted_criterion:
  "r \<in> set (concat (map (melt_rows df iv vn) fc)) \<Longrightarrow> criterion r \<in> set fc"
  by (auto dest: melt_rows_criterion)

lemma df_long_criterion: "r \<in> set (df_long df fc) \<Longrightarrow> criterion r \<in> set fc"
  by (auto simp: df_long_def dropna_def categorize_def dest: melt_rows_criterion)

lemma filter_block:
  assumes "distinct fc" "c \<in> set fc" "\<And>r. P r \<Longrightarrow> criterion r = c"
  shows "filter P (concat (map (melt_rows df iv vn) fc)) = filter P (melt_rows df iv vn c)"
  using assms(1,2)
proof (induction fc)
  case Nil
  then show ?case by simp
next
  case (Cons c' fc)
  show ?case
  proof (cases "c' = c")
    case True
    with Cons.prems have "c \<notin> set fc" by simp
    then have "filter P (concat (map (melt_rows df iv vn) fc)) = []"
      using assms(3) melted_criterion by (fastforce simp: filter_empty_conv simp del: set_concat)
    with True show ?thesis by simp
  next
    case False
    then have "filter P (melt_rows df iv vn c') = []"
      using assms(3) melt_rows_criterion by (fastforce simp: filter_empty_conv)
    with False Cons show ?thesis by simp
  qed
qed

lemma key3_categorize_iff:
  "key3 (categorize r) = Some (c, cat, s) \<longleftrightarrow>
     criterion r = c \<and> classify (response r) = Some (cat, s)"
  by (auto simp: classify_key3)

lemma count_df_long:
  assumes "distinct fc" "c \<in> set fc"
  shows "length (filter (\<lambda>r. key3 r = Some (c, cat, s)) (df_long df fc)) =
         length (filter (\<lambda>row. classify (cell_of (columns df) row c) = Some (cat, s)) (rows df))"
proof -
  let ?iv = "[col \<leftarrow> columns df. col \<notin> set fc]"
  let ?P = "\<lambda>r. key3 (categorize r) = Some (c, cat, s)"
  have keep: "key3 r = Some k \<Longrightarrow> response_category r \<noteq> None \<and> sentiment r \<noteq> None" for r k
    by (auto simp: key3_def split: option.splits)
  have "filter (\<lambda>r. key3 r = Some (c, cat, s)) (df_long df fc) =
          map categorize (filter ?P (concat (map (melt_rows df ?iv (ascii ''Criterion'')) fc)))"
    unfolding df_long_def dropna_def filter_filter filter_map comp_def
    by (rule arg_cong [where f = "map categorize"], rule filter_cong) (auto dest: keep)
  also have "filter ?P (concat (map (melt_rows df ?iv (ascii ''Criterion'')) fc)) = filter ?P (melt_rows df ?iv (ascii ''Criterion'') c)"
    using assms by (rule filter_block) (simp add: key3_categorize_iff)
  finally have "length (filter (\<lambda>r. key3 r = Some (c, cat, s)) (df_long df fc)) =
      length (filter ?P (melt_rows df ?iv (ascii ''Criterion'') c))"
    by simp
  also have "\<dots> = length (filter (\<lambda>row. classify (cell_of (columns df) row c) = Some (cat, s))
      (rows df))"
    by (simp add: melt_rows_def filter_map comp_def key3_categorize_iff)
  finally show ?thesis .
qed

lemma total_df_long:
  assumes "distinct fc" "c \<in> set fc"
  shows "length (filter (\<lambda>r. criterion r = c) (df_long df fc)) =
         length (filter (\<lambda>row. classify (cell_of (columns df) row c) \<noteq> None) (rows df))"
proof -
  let ?iv = "[col \<leftarrow> columns df. col \<notin> set fc]"
  let ?P = "\<lambda>r. criterion r = c \<and> classify (response r) \<noteq> None"
  have keep: "response_category (categorize r) \<noteq> None \<and> sentiment (categorize r) \<noteq> None
      \<longleftrightarrow> classify (response r) \<noteq> None" for r
    by (auto simp: categorize_def classify_def split: option.splits)
  have crit: "criterion (categorize r) = criterion r" for r
    by (simp add: categorize_def)
  have "filter (\<lambda>r. criterion r = c) (df_long df fc) =
          map categorize (filter ?P (concat (map (melt_rows df ?iv (ascii ''Criterion'')) fc)))"
    unfolding df_long_def dropna_def filter_filter filter_map comp_def
    by (intro arg_cong [where f = "map categorize"] filter_cong refl)
       (simp only: keep crit conj_commute)
  also have "filter ?P (concat (map (melt_rows df ?iv (ascii ''Criterion'')) fc)) = filter ?P (melt_rows df ?iv (ascii ''Criterion'') c)"
    using assms by (rule filter_block) simp
  finally have "length (filter (\<lambda>r. criterion r = c) (df_long df fc)) =
      length (filter ?P (melt_rows df ?iv (ascii ''Criterion'') c))"
    by simp
  also have "\<dots> = length (filter (\<lambda>row. classify (cell_of (columns df) row c) \<noteq> None)
      (rows df))"
    by (simp add: melt_rows_def filter_map comp_def)
  finally show ?thesis .
qed

lemma aggregate_rows_eq:
  "aggregate_rows (chart_data df fc) = map (out_row df fc) (group_keys (df_long df fc))"
  by (simp add: chart_data_def df_perc_eq out_row_def)

lemma out_row_fields:
  "Criterion (out_row df fc k) = map_of (criterion_short_map fc) (fst k)"
  "Response_Category (out_row df fc k) = fst (snd k)"
  "Sentiment (out_row df fc k) = snd (snd k)"
  "Count (out_row df fc k) = length (filter (\<lambda>r. key3 r = Some k) (df_long df fc))"
  "Total (out_row df fc k) = length (filter (\<lambda>r. criterion r = fst k) (df_long df fc))"
  "Percentage (out_row df fc k) = percentage (Count (out_row df fc k)) (Total (out_row df fc k))"
  "Diverging_Percentage (out_row df fc k) =
     diverging_percentage (snd (snd k)) (Percentage (out_row df fc k))"
  by (simp_all add: out_row_def relabel_def perc_row_def counted_def)

lemma group_keys_df_long:
  assumes "k \<in> set (group_keys (df_long df fc))"
  shows "fst k \<in> set fc"
    and "\<exists>r \<in> set (df_long df fc). key3 r = Some k \<and> criterion r = fst k \<and>
           classify (response r) = Some (snd k)"
proof -
  from assms obtain r where r: "r \<in> set (df_long df fc)" "key3 r = Some k"
    by (auto simp: set_group_keys)
  from df_long_classified [OF r(1)] r(2)
  have k: "criterion r = fst k" "classify (response r) = Some (snd k)"
    by auto
  with r show "\<exists>r \<in> set (df_long df fc). key3 r = Some k \<and> criterion r = fst k \<and>
           classify (response r) = Some (snd k)" by blast
  from df_long_criterion [OF r(1)] k show "fst k \<in> set fc" by simp
qed

lemma count_pos:
  assumes "k \<in> set (group_keys (df_long df fc))"
  shows "0 < Count (out_row df fc k)"
proof -
  from group_keys_df_long(2) [OF assms] obtain r where
    "r \<in> set (df_long df fc)" "key3 r = Some k" by blast
  then have "filter (\<lambda>r. key3 r = Some k) (df_long df fc) \<noteq> []"
    by (auto simp: filter_empty_conv)
  then show ?thesis by (simp add: out_row_fields)
qed

lemma count_le_total: "Count (out_row df fc k) \<le> Total (out_row df fc k)"
proof -
  have "filter (\<lambda>r. key3 r = Some k) (df_long df fc) =
        filter (\<lambda>r. key3 r = Some k) (filter (\<lambda>r. criterion r = fst k) (df_long df fc))"
    by (cases k) (auto intro!: filter_cong dest: key3_criterion)
  then have "length (filter (\<lambda>r. key3 r = Some k) (df_long df fc)) \<le>
        length (filter (\<lambda>r. criterion r = fst k) (df_long df fc))"
    by (metis length_filter_le)
  then show ?thesis by (simp add: out_row_fields)
qed

lemma criterion_short_map_inj:
  assumes "c1 \<in> set fc" "c2 \<in> set fc"
    "map_of (criterion_short_map fc) c1 = map_of (criterion_short_map fc) c2"
  shows "c1 = c2"
proof -
  from criterion_short_map_lookup [OF assms(1)] obtain i where
    i: "fc ! i = c1" "map_of (criterion_short_map fc) c1 = Some (short_label i c1)" by blast
  from criterion_short_map_lookup [OF assms(2)] obtain j where
    j: "fc ! j = c2" "map_of (criterion_short_map fc) c2 = Some (short_label j c2)" by blast
  from i(2) j(2) assms(3) have "short_label i c1 = short_label j c2" by simp
  then have "i = j" by (rule short_label_index_inj)
  with i(1) j(1) show ?thesis by simp
qed

lemma sum_counts_criterion:
  assumes "k0 \<in> set (group_keys (df_long df fc))"
  shows "sum_list (map Count [r' \<leftarrow> map (out_row df fc) (group_keys (df_long df fc)).
            Criterion r' = Criterion (out_row df fc k0)]) = Total (out_row df fc k0)"
proof -
  let ?L = "df_long df fc"
  let ?ks = "group_keys ?L"
  let ?P = "\<lambda>k. fst k = fst k0"
  have same: "Criterion (out_row df fc k) = Criterion (out_row df fc k0) \<longleftrightarrow> ?P k"
    if "k \<in> set ?ks" for k
    using criterion_short_map_inj [OF group_keys_df_long(1) [OF that]
        group_keys_df_long(1) [OF assms]]
    by (auto simp: out_row_fields)
  have "[r' \<leftarrow> map (out_row df fc) ?ks. Criterion r' = Criterion (out_row df fc k0)] =
        map (out_row df fc) (filter ?P ?ks)"
    unfolding filter_map comp_def
    by (intro arg_cong [where f = "map (out_row df fc)"] filter_cong refl) (rule same)
  then have "sum_list (map Count [r' \<leftarrow> map (out_row df fc) ?ks.
            Criterion r' = Criterion (out_row df fc k0)]) =
        sum_list (map (\<lambda>k. length (filter (\<lambda>r. key3 r = Some k) ?L)) (filter ?P ?ks))"
    by (simp add: comp_def out_row_fields)
  also have "\<dots> = length (filter (\<lambda>r. case key3 r of Some k \<Rightarrow> ?P k | None \<Rightarrow> False) ?L)"
    by (rule sum_counts) (auto simp: distinct_group_keys set_group_keys)
  also have "filter (\<lambda>r. case key3 r of Some k \<Rightarrow> ?P k | None \<Rightarrow> False) ?L =
        filter (\<lambda>r. criterion r = fst k0) ?L"
    by (rule filter_cong) (auto dest: df_long_classified)
  finally show ?thesis by (simp add: out_row_fields)
qed

lemma total_le_rows:
  assumes "distinct fc" "k \<in> set (group_keys (df_long df fc))"
  shows "Total (out_row df fc k) \<le> length (rows df)"
  using total_df_long [OF assms(1) group_keys_df_long(1) [OF assms(2)], of df]
  by (simp add: out_row_fields)

section \<open>Counts and totals\<close>

text \<open>
  Claim C1. In the output of a successful aggregation over a selection without repetition,
  the counts of the rows that share a row's criterion add up to that row's total, and the
  total is at most \<open>total_responses\<close>, which is the number of rows of the table.
\<close>

theorem C1_counts_sum_to_total:
  assumes "distinct feedback_cols"
    and "aggregate df feedback_cols = Inr res"
    and "r \<in> set (aggregate_rows res)"
  shows "sum_list (map Count [r' \<leftarrow> aggregate_rows res. Criterion r' = Criterion r]) = Total r
       \<and> Total r \<le> total_responses res
       \<and> total_responses res = length (rows df)"
proof -
  from aggregate_InrD(4) [OF assms(2)] have res: "res = chart_data df feedback_cols" .
  with assms(3) obtain k where k: "k \<in> set (group_keys (df_long df feedback_cols))"
    "r = out_row df feedback_cols k"
    by (auto simp: aggregate_rows_eq)
  have "total_responses res = length (rows df)"
    by (simp add: res chart_data_def len_df_def)
  moreover have "Total r \<le> length (rows df)"
    using total_le_rows [OF assms(1) k(1)] k(2) by simp
  moreover have "sum_list (map Count [r' \<leftarrow> aggregate_rows res. Criterion r' = Criterion r]) = Total r"
    using sum_counts_criterion [OF k(1)] by (simp add: res aggregate_rows_eq k(2))
  ultimately show ?thesis by simp
qed

section \<open>Evaluation on concrete tables\<close>

lemma ascii_simps:
  "ascii [] = []" "ascii (c # cs) = of_char c # ascii cs"
  by (simp_all add: ascii_def)

lemmas pipeline_defs =
  aggregate_def melt_def melt_rows_def cell_of_def Let_def len_df_def
  categorize_def series_map_def response_to_category_def response_to_sentiment_def dropna_def
  df_perc_def df_counts_def df_totals_def groupby_size_def key3_def merge_on_Criterion_def
  perc_row_def percentage_def float64_quot_def float64_of_nat_def round_half_even_def
  binade_up.simps binade_down.simps diverging_percentage_def times_minus_one_def relabel_def
  criterion_short_map_def sorted_criteria_def short_label_def str_nat.simps ascii_simps

lemma example_aggregate:
  "aggregate example_df [ascii ''Q1''] =
     Inr \<lparr>total_responses = 3, aggregate_rows = example_rows, criteria_order = [ascii ''1. Q1'']\<rparr>"
  by (simp add: example_df_def example_rows_def pipeline_defs)

text \<open>The theorem of C1 at the three-row table of the example.\<close>

theorem C1_witness:
  "distinct [ascii ''Q1''] \<and>
   aggregate example_df [ascii ''Q1''] =
     Inr \<lparr>total_responses = 3, aggregate_rows = example_rows, criteria_order = [ascii ''1. Q1'']\<rparr> \<and>
   hd example_rows \<in> set example_rows \<and>
   sum_list (map Count [r' \<leftarrow> example_rows. Criterion r' = Criterion (hd example_rows)]) = 3 \<and>
   Total (hd example_rows) = 3"
proof -
  have d: "distinct [ascii ''Q1'']" by simp
  have r: "hd example_rows \<in> set (aggregate_rows
     \<lparr>total_responses = 3, aggregate_rows = example_rows, criteria_order = [ascii ''1. Q1'']\<rparr>)"
    by (simp add: example_rows_def)
  have t: "Total (hd example_rows) = 3" by (simp add: example_rows_def)
  show ?thesis
    using d example_aggregate r t C1_counts_sum_to_total [OF d example_aggregate r]
    by simp
qed

lemma classify_cases:
  assumes "classify v = Some (cat, s)"
  shows "(v = Text (ascii ''Strongly Agree '' @ [0x2705]) \<and>
            cat = ascii ''Strongly Agree'' \<and> s = ascii ''Positive'') \<or>
         (v = Text (ascii ''Agree '' @ [0x270B, 0x1F3FB]) \<and>
            cat = ascii ''Agree'' \<and> s = ascii ''Positive'') \<or>
         (v = Text (ascii ''Disagree '' @ [0x26A0, 0xFE0F]) \<and>
            cat = ascii ''Disagree'' \<and> s = ascii ''Negative'') \<or>
         (v = Text (ascii ''Strongly Disagree '' @ [0x26D4, 0xFE0F]) \<and>
            cat = ascii ''Strongly Disagree'' \<and> s = ascii ''Negative'')"
  using assms
  by (cases v)
     (auto simp: classify_def series_map_def response_to_category_def response_to_sentiment_def
        ascii_simps split: if_splits)

lemma sentiment_cases:
  assumes "k \<in> set (group_keys (df_long df fc))"
  shows "snd (snd k) = ascii ''Positive'' \<or> snd (snd k) = ascii ''Negative''"
proof -
  from group_keys_df_long(2) [OF assms] obtain r :: cat_row where
    "classify (response r) = Some (snd k)" by auto
  then have "classify (response r) = Some (fst (snd k), snd (snd k))" by simp
  from classify_cases [OF this] show ?thesis by auto
qed

lemma positive_not_negative: "ascii ''Positive'' \<noteq> ascii ''Negative''"
  by (simp add: ascii_simps)

lemma keys_of_column:
  "List.map_filter key3 (dropna (map categorize (melt_rows df iv vn q))) =
     List.map_filter (\<lambda>v. map_option (\<lambda>(cat, s). (q, cat, s)) (classify v))
       (map (\<lambda>row. cell_of (columns df) row q) (rows df))"
proof -
  have "List.map_filter key3 (dropna (map categorize (map f rs))) =
      List.map_filter (\<lambda>v. map_option (\<lambda>(cat, s). (q, cat, s)) (classify v))
        (map (\<lambda>row. response (f row)) rs)"
    if "\<And>row. criterion (f row) = q" for f :: "cell list \<Rightarrow> long_row" and rs
    using that
    by (induction rs)
       (auto simp: dropna_def key3_def categorize_def classify_def split: option.splits)
  from this [of "\<lambda>row. \<lparr>ids = map (\<lambda>i. if i = vn then Text q else cell_of (columns df) row i) iv,
      criterion = q, response = cell_of (columns df) row q\<rparr>" "rows df"]
  show ?thesis by (simp add: melt_rows_def)
qed

lemma count_cells:
  "length [row \<leftarrow> rows df. P (cell_of (columns df) row c)] =
     length (filter P (map (\<lambda>row. cell_of (columns df) row c) (rows df)))"
  by (simp add: filter_map comp_def)

lemma three_row_example:
  assumes q: "q \<in> set (columns df)"
    and r: "ascii ''Response'' \<notin> set (columns df)"
    and c: "ascii ''Criterion'' \<in> set (columns df) \<longrightarrow> q = ascii ''Criterion''"
    and cells: "map (\<lambda>row. cell_of (columns df) row q) (rows df) =
        [Text (ascii ''Strongly Agree '' @ [0x2705]),
         Text (ascii ''Disagree '' @ [0x26A0, 0xFE0F]),
         Text (ascii ''Strongly Agree '' @ [0x2705])]"
  shows "aggregate df [q] =
        Inr \<lparr>total_responses = 3,
             aggregate_rows =
               [\<lparr>Criterion = Some (short_label 0 q), Response_Category = ascii ''Disagree'',
                 Sentiment = ascii ''Negative'', Count = 1, Total = 3,
                 Percentage = Finite (6004799503160661 / 18014398509481984),
                 Diverging_Percentage = Finite (- (6004799503160661 / 18014398509481984))\<rparr>,
                \<lparr>Criterion = Some (short_label 0 q),
                 Response_Category = ascii ''Strongly Agree'',
                 Sentiment = ascii ''Positive'', Count = 2, Total = 3,
                 Percentage = Finite (6004799503160661 / 9007199254740992),
                 Diverging_Percentage = Finite (6004799503160661 / 9007199254740992)\<rparr>],
             criteria_order = [short_label 0 q]\<rparr>"
proof -
  note cl = classify_def series_map_def response_to_category_def response_to_sentiment_def
  have "\<not> name_clash df [q]" using r c by (auto simp: name_clash_def)
  with aggregate_cases [of "[q]" df] q
  have a: "aggregate df [q] = Inr (chart_data df [q])" by simp
  have n: "length (rows df) = 3"
    using arg_cong [OF cells, of length] by simp
  have keys: "group_keys (df_long df [q]) =
      [(q, ascii ''Disagree'', ascii ''Negative''), (q, ascii ''Strongly Agree'', ascii ''Positive'')]"
    by (simp add: group_keys_def df_long_def keys_of_column cells cl ascii_simps)
  have cnt: "length (filter (\<lambda>r. key3 r = Some (q, cat, s)) (df_long df [q])) =
      length (filter (\<lambda>v. classify v = Some (cat, s))
        (map (\<lambda>row. cell_of (columns df) row q) (rows df)))" for cat s
    using count_df_long [of "[q]" q cat s df]
      count_cells [of "\<lambda>v. classify v = Some (cat, s)" df q]
    by simp
  have tot: "length (filter (\<lambda>r. criterion r = q) (df_long df [q])) =
      length (filter (\<lambda>v. classify v \<noteq> None)
        (map (\<lambda>row. cell_of (columns df) row q) (rows df)))"
    using total_df_long [of "[q]" q df] count_cells [of "\<lambda>v. classify v \<noteq> None" df q]
    by simp
  have m: "map_of (criterion_short_map [q]) q = Some (short_label 0 q)"
    by (simp add: criterion_short_map_def)
  have p: "percentage 1 3 = Finite (6004799503160661 / 18014398509481984)"
    "percentage 2 3 = Finite (6004799503160661 / 9007199254740992)"
    by (simp_all add: percentage_def float64_quot_def float64_of_nat_def round_half_even_def
        binade_up.simps binade_down.simps Let_def)
  have p': "percentage (Suc 0) (Suc (Suc (Suc 0))) =
      Finite (6004799503160661 / 18014398509481984)"
    "percentage (Suc (Suc 0)) (Suc (Suc (Suc 0))) = Finite (6004799503160661 / 9007199254740992)"
    using p by (simp_all add: numeral_3_eq_3 [symmetric] numeral_2_eq_2 [symmetric])
  have "chart_data df [q] =
      \<lparr>total_responses = 3,
             aggregate_rows =
               [\<lparr>Criterion = Some (short_label 0 q), Response_Category = ascii ''Disagree'',
                 Sentiment = ascii ''Negative'', Count = 1, Total = 3,
                 Percentage = Finite (6004799503160661 / 18014398509481984),
                 Diverging_Percentage = Finite (- (6004799503160661 / 18014398509481984))\<rparr>,
                \<lparr>Criterion = Some (short_label 0 q),
                 Response_Category = ascii ''Strongly Agree'',
                 Sentiment = ascii ''Positive'', Count = 2, Total = 3,
                 Percentage = Finite (6004799503160661 / 9007199254740992),
                 Diverging_Percentage = Finite (6004799503160661 / 9007199254740992)\<rparr>],
             criteria_order = [short_label 0 q]\<rparr>"
    by (simp add: chart_data_def len_df_def n df_perc_eq keys relabel_def perc_row_def
        counted_def cnt tot cells cl m p' diverging_percentage_def times_minus_one_def
        sorted_criteria_def criterion_short_map_def ascii_simps)
  with a show ?thesis by simp
qed

section \<open>Percentages\<close>

text \<open>
  Claim C2, as stated, fails in two ways. The quotient is a float64 one: for the three-row
  table of the example the percentages are the float64 values nearest to 1/3 and 2/3, not
  these fractions. And the example does not hold for every table whose selected column
  holds the three responses: beside a column labelled \<open>Response\<close>, or beside an unselected
  column labelled \<open>Criterion\<close>, the analysis ends with an error.
\<close>

theorem C2_counterexample:
  "map Percentage (aggregate_rows (projr (aggregate example_df [ascii ''Q1'']))) =
     [Finite (6004799503160661 / 18014398509481984),
      Finite (6004799503160661 / 9007199254740992)] \<and>
   (6004799503160661 / 18014398509481984 :: rat) \<noteq> 1 / 3 \<and>
   (6004799503160661 / 9007199254740992 :: rat) \<noteq> 2 / 3 \<and>
   aggregate
     \<lparr>columns = [ascii ''Q1'', ascii ''Response''],
      rows = [[Text (ascii ''Strongly Agree '' @ [0x2705]), Text (ascii ''a'')],
              [Text (ascii ''Disagree '' @ [0x26A0, 0xFE0F]), Text (ascii ''b'')],
              [Text (ascii ''Strongly Agree '' @ [0x2705]), Text (ascii ''c'')]]\<rparr>
     [ascii ''Q1''] = Inl ValueError \<and>
   aggregate
     \<lparr>columns = [ascii ''Criterion'', ascii ''Q1''],
      rows = [[Text (ascii ''a''), Text (ascii ''Strongly Agree '' @ [0x2705])],
              [Text (ascii ''b''), Text (ascii ''Disagree '' @ [0x26A0, 0xFE0F])],
              [Text (ascii ''c''), Text (ascii ''Strongly Agree '' @ [0x2705])]]\<rparr>
     [ascii ''Q1''] = Inl ValueError"
proof -
  have "map Percentage (aggregate_rows (projr (aggregate example_df [ascii ''Q1'']))) =
     [Finite (6004799503160661 / 18014398509481984),
      Finite (6004799503160661 / 9007199254740992)]"
    by (simp add: example_aggregate example_rows_def)
  moreover have "(6004799503160661 / 18014398509481984 :: rat) \<noteq> 1 / 3"
    "(6004799503160661 / 9007199254740992 :: rat) \<noteq> 2 / 3"
    by simp_all
  moreover have "aggregate
     \<lparr>columns = [ascii ''Q1'', ascii ''Response''],
      rows = [[Text (ascii ''Strongly Agree '' @ [0x2705]), Text (ascii ''a'')],
              [Text (ascii ''Disagree '' @ [0x26A0, 0xFE0F]), Text (ascii ''b'')],
              [Text (ascii ''Strongly Agree '' @ [0x2705]), Text (ascii ''c'')]]\<rparr>
     [ascii ''Q1''] = Inl ValueError"
    by (simp add: aggregate_def melt_def Let_def ascii_simps)
  moreover have "aggregate
     \<lparr>columns = [ascii ''Criterion'', ascii ''Q1''],
      rows = [[Text (ascii ''a''), Text (ascii ''Strongly Agree '' @ [0x2705])],
              [Text (ascii ''b''), Text (ascii ''Disagree '' @ [0x26A0, 0xFE0F])],
              [Text (ascii ''c''), Text (ascii ''Strongly Agree '' @ [0x2705])]]\<rparr>
     [ascii ''Q1''] = Inl ValueError"
    by (simp add: aggregate_def melt_def Let_def ascii_simps)
  ultimately show ?thesis by blast
qed

text \<open>
  Claim C2, amended. In every row of a successful aggregation the percentage is a finite
  float64 in \<open>(0, 1]\<close>: the float64 quotient of the count and the total, within \<open>2 ^ -53\<close> of
  the exact quotient for totals below \<open>2 ^ 53\<close>. The sentiment is \<open>Positive\<close> or \<open>Negative\<close>,
  and the diverging percentage is the percentage for the former and its negation for the
  latter, so that it lies in \<open>[-1, 1]\<close> with the sign of the sentiment. For a table none of
  whose columns is labelled \<open>Response\<close>, none of whose unselected columns is labelled
  \<open>Criterion\<close>, and whose single selected column \<open>q\<close> holds Strongly Agree, Disagree,
  Strongly Agree in its three rows, the result has \<open>total_responses = 3\<close> and two rows with
  \<open>Total = 3\<close>, in the order of their group keys: Disagree with count 1 and the float64
  nearest to 1/3, negated in the diverging percentage, and Strongly Agree with count 2 and
  the float64 nearest to 2/3.
\<close>

theorem C2_percentages:
  "(\<forall>df feedback_cols res r.
      aggregate df feedback_cols = Inr res \<and> r \<in> set (aggregate_rows res) \<longrightarrow>
        (\<exists>p. Percentage r = Finite p \<and> 0 < p \<and> p \<le> 1 \<and>
           p = float64_quot (float64_of_nat (Count r)) (float64_of_nat (Total r)) \<and>
           (Total r < 2 ^ 53 \<longrightarrow> \<bar>p - of_nat (Count r) / of_nat (Total r)\<bar> \<le> 1 / 2 ^ 53) \<and>
           (Sentiment r = ascii ''Positive'' \<and> Diverging_Percentage r = Finite p \<or>
            Sentiment r = ascii ''Negative'' \<and> Diverging_Percentage r = Finite (- p)))) \<and>
   (\<forall>df q.
      q \<in> set (columns df) \<and> ascii ''Response'' \<notin> set (columns df) \<and>
      (ascii ''Criterion'' \<in> set (columns df) \<longrightarrow> q = ascii ''Criterion'') \<and>
      map (\<lambda>row. cell_of (columns df) row q) (rows df) =
        [Text (ascii ''Strongly Agree '' @ [0x2705]),
         Text (ascii ''Disagree '' @ [0x26A0, 0xFE0F]),
         Text (ascii ''Strongly Agree '' @ [0x2705])] \<longrightarrow>
      aggregate df [q] =
        Inr \<lparr>total_responses = 3,
             aggregate_rows =
               [\<lparr>Criterion = Some (short_label 0 q), Response_Category = ascii ''Disagree'',
                 Sentiment = ascii ''Negative'', Count = 1, Total = 3,
                 Percentage = Finite (6004799503160661 / 18014398509481984),
                 Diverging_Percentage = Finite (- (6004799503160661 / 18014398509481984))\<rparr>,
                \<lparr>Criterion = Some (short_label 0 q),
                 Response_Category = ascii ''Strongly Agree'',
                 Sentiment = ascii ''Positive'', Count = 2, Total = 3,
                 Percentage = Finite (6004799503160661 / 9007199254740992),
                 Diverging_Percentage = Finite (6004799503160661 / 9007199254740992)\<rparr>],
             criteria_order = [short_label 0 q]\<rparr>)"
proof (intro conjI allI impI)
  fix df fc res r
  assume a: "aggregate df fc = Inr res \<and> r \<in> set (aggregate_rows res)"
  then have res: "res = chart_data df fc" by (auto dest: aggregate_InrD(4))
  with a obtain k where k: "k \<in> set (group_keys (df_long df fc))" "r = out_row df fc k"
    by (auto simp: aggregate_rows_eq)
  from percentage_value [OF count_pos [OF k(1)] count_le_total [of df fc k]]
  obtain p where p: "Percentage r = Finite p" "0 < p" "p \<le> 1"
    "p = float64_quot (float64_of_nat (Count r)) (float64_of_nat (Total r))"
    "Total r < 2 ^ 53 \<longrightarrow> \<bar>p - of_nat (Count r) / of_nat (Total r)\<bar> \<le> 1 / 2 ^ 53"
    by (auto simp: k(2) out_row_fields(6))
  have "Sentiment r = ascii ''Positive'' \<and> Diverging_Percentage r = Finite p \<or>
        Sentiment r = ascii ''Negative'' \<and> Diverging_Percentage r = Finite (- p)"
    using sentiment_cases [OF k(1)] positive_not_negative p(1)
    by (auto simp: k(2) out_row_fields(3,7) diverging_percentage_def times_minus_one_def)
  with p show "(\<exists>p. Percentage r = Finite p \<and> 0 < p \<and> p \<le> 1 \<and>
               p = float64_quot (float64_of_nat (Count r)) (float64_of_nat (Total r)) \<and>
               (Total r < 2 ^ 53 \<longrightarrow> \<bar>p - of_nat (Count r) / of_nat (Total r)\<bar> \<le> 1 / 2 ^ 53) \<and>
               (Sentiment r = ascii ''Positive'' \<and> Diverging_Percentage r = Finite p \<or>
                Sentiment r = ascii ''Negative'' \<and> Diverging_Percentage r = Finite (- p)))"
    by blast
next
  fix df :: dataframe and q
  assume "q \<in> set (columns df) \<and> ascii ''Response'' \<notin> set (columns df) \<and>
      (ascii ''Criterion'' \<in> set (columns df) \<longrightarrow> q = ascii ''Criterion'') \<and>
      map (\<lambda>row. cell_of (columns df) row q) (rows df) =
        [Text (ascii ''Strongly Agree '' @ [0x2705]),
         Text (ascii ''Disagree '' @ [0x26A0, 0xFE0F]),
         Text (ascii ''Strongly Agree '' @ [0x2705])]"
  then show "aggregate df [q] =
        Inr \<lparr>total_responses = 3,
             aggregate_rows =
               [\<lparr>Criterion = Some (short_label 0 q), Response_Category = ascii ''Disagree'',
                 Sentiment = ascii ''Negative'', Count = 1, Total = 3,
                 Percentage = Finite (6004799503160661 / 18014398509481984),
                 Diverging_Percentage = Finite (- (6004799503160661 / 18014398509481984))\<rparr>,
                \<lparr>Criterion = Some (short_label 0 q),
                 Response_Category = ascii ''Strongly Agree'',
                 Sentiment = ascii ''Positive'', Count = 2, Total = 3,
                 Percentage = Finite (6004799503160661 / 9007199254740992),
                 Diverging_Percentage = Finite (6004799503160661 / 9007199254740992)\<rparr>],
             criteria_order = [short_label 0 q]\<rparr>"
    by (intro three_row_example) simp_all
qed

text \<open>The theorem of C2 at the three-row table with the column \<open>Q1\<close>, for its first row.\<close>

theorem C2_witness:
  "aggregate example_df [ascii ''Q1''] =
     Inr \<lparr>total_responses = 3, aggregate_rows = example_rows, criteria_order = [ascii ''1. Q1'']\<rparr> \<and>
   hd example_rows \<in> set example_rows \<and>
   Count (hd example_rows) = 1 \<and> Total (hd example_rows) = 3 \<and>
   Percentage (hd example_rows) = Finite (6004799503160661 / 18014398509481984) \<and>
   Sentiment (hd example_rows) = ascii ''Negative'' \<and>
   Diverging_Percentage (hd example_rows) = Finite (- (6004799503160661 / 18014398509481984)) \<and>
   (\<exists>p. Percentage (hd example_rows) = Finite p \<and> 0 < p \<and> p \<le> 1 \<and>
      p = float64_quot (float64_of_nat (Count (hd example_rows)))
            (float64_of_nat (Total (hd example_rows))) \<and>
      \<bar>p - 1 / 3\<bar> \<le> 1 / 2 ^ 53)"
proof -
  let ?res = "\<lparr>total_responses = 3, aggregate_rows = example_rows,
                 criteria_order = [ascii ''1. Q1'']\<rparr>"
  let ?r = "hd example_rows"
  have r: "?r \<in> set (aggregate_rows ?res)"
    by (simp add: example_rows_def)
  have v: "Count ?r = 1" "Total ?r = 3"
    "Percentage ?r = Finite (6004799503160661 / 18014398509481984)"
    "Sentiment ?r = ascii ''Negative''"
    "Diverging_Percentage ?r = Finite (- (6004799503160661 / 18014398509481984))"
    by (simp_all add: example_rows_def)
  from C2_percentages have
    "aggregate example_df [ascii ''Q1''] = Inr ?res \<and> ?r \<in> set (aggregate_rows ?res) \<longrightarrow>
       (\<exists>p. Percentage ?r = Finite p \<and> 0 < p \<and> p \<le> 1 \<and>
           p = float64_quot (float64_of_nat (Count ?r)) (float64_of_nat (Total ?r)) \<and>
           (Total ?r < 2 ^ 53 \<longrightarrow> \<bar>p - of_nat (Count ?r) / of_nat (Total ?r)\<bar> \<le> 1 / 2 ^ 53) \<and>
           (Sentiment ?r = ascii ''Positive'' \<and> Diverging_Percentage ?r = Finite p \<or>
            Sentiment ?r = ascii ''Negative'' \<and> Diverging_Percentage ?r = Finite (- p)))"
    by blast
  with example_aggregate r obtain p where p: "Percentage ?r = Finite p" "0 < p" "p \<le> 1"
    "p = float64_quot (float64_of_nat (Count ?r)) (float64_of_nat (Total ?r))"
    "Total ?r < 2 ^ 53 \<longrightarrow> \<bar>p - of_nat (Count ?r) / of_nat (Total ?r)\<bar> \<le> 1 / 2 ^ 53"
    by blast
  from p(5) have "\<bar>p - 1 / 3\<bar> \<le> 1 / 2 ^ 53" by (simp add: v(1,2))
  with p(1-4) have "\<exists>p. Percentage ?r = Finite p \<and> 0 < p \<and> p \<le> 1 \<and>
      p = float64_quot (float64_of_nat (Count ?r)) (float64_of_nat (Total ?r)) \<and>
      \<bar>p - 1 / 3\<bar> \<le> 1 / 2 ^ 53"
    by blast
  with example_aggregate r v show ?thesis by simp
qed

section \<open>The empty selection\<close>

text \<open>
  Claim C4. With no column selected the analysis ends with the selection error, whatever
  the table holds; the error carries no result.
\<close>

theorem C4_empty_selection: "aggregate df [] = Inl SelectionError"
  by (simp add: aggregate_def)

text \<open>The theorem of C4 at the three-row table.\<close>

theorem C4_witness: "aggregate example_df [] = Inl SelectionError"
  using C4_empty_selection [of example_df] by simp

lemma classify_Text:
  assumes "classify v = Some (cat, s)"
  shows "\<exists>lit. v = Text lit \<and> map_of response_to_category lit = Some cat \<and>
           map_of response_to_sentiment lit = Some s"
  using assms
  by (cases v) (auto simp: classify_def series_map_def split: option.splits)

lemma classify_unique:
  assumes "classify v = Some (cat, s)"
  shows "classify v' = Some (cat, s) \<longleftrightarrow> v' = v"
proof
  assume "classify v' = Some (cat, s)"
  from classify_cases [OF this] classify_cases [OF assms] show "v' = v"
    by (auto simp: ascii_simps)
next
  assume "v' = v"
  with assms show "classify v' = Some (cat, s)" by simp
qed

lemma recognised_iff: "recognised v \<longleftrightarrow> classify v \<noteq> None"
  by (cases v)
     (auto simp: recognised_def classify_def series_map_def response_to_category_def
        response_to_sentiment_def)

lemma unrecognised_maps:
  assumes "\<not> recognised v"
  shows "series_map response_to_category v = None"
    and "series_map response_to_sentiment v = None"
  using assms
  by (cases v; auto simp: recognised_def series_map_def response_to_category_def
        response_to_sentiment_def)+

lemma out_row_counts:
  assumes "distinct fc" "k \<in> set (group_keys (df_long df fc))"
  shows "\<exists>i lit. i < length fc \<and> fc ! i = fst k \<and>
     Criterion (out_row df fc k) = Some (short_label i (fc ! i)) \<and>
     map_of response_to_category lit = Some (Response_Category (out_row df fc k)) \<and>
     map_of response_to_sentiment lit = Some (Sentiment (out_row df fc k)) \<and>
     Count (out_row df fc k) =
       length [row \<leftarrow> rows df. cell_of (columns df) row (fc ! i) = Text lit] \<and>
     Total (out_row df fc k) =
       length [row \<leftarrow> rows df. recognised (cell_of (columns df) row (fc ! i))]"
proof -
  obtain c cat s where k: "k = (c, cat, s)" by (cases k)
  from group_keys_df_long [OF assms(2)] k obtain r :: cat_row where
    c: "c \<in> set fc" and r: "classify (response r) = Some (cat, s)"
    by auto
  from classify_Text [OF r] obtain lit where lit: "response r = Text lit"
    "map_of response_to_category lit = Some cat" "map_of response_to_sentiment lit = Some s"
    by blast
  from criterion_short_map_lookup [OF c] obtain i where i: "i < length fc" "fc ! i = c"
    "map_of (criterion_short_map fc) c = Some (short_label i c)" by blast
  have u: "classify v = Some (cat, s) \<longleftrightarrow> v = Text lit" for v
    using classify_unique [OF r] lit(1) by simp
  have "Count (out_row df fc k) =
      length [row \<leftarrow> rows df. cell_of (columns df) row c = Text lit]"
    using count_df_long [OF assms(1) c, of cat s df]
    by (simp add: out_row_fields k u)
  moreover have "Total (out_row df fc k) =
      length [row \<leftarrow> rows df. recognised (cell_of (columns df) row c)]"
    using total_df_long [OF assms(1) c, of df]
    by (simp add: out_row_fields k recognised_iff)
  ultimately show ?thesis
    using i lit(2,3) by (intro exI [of _ i] exI [of _ lit]) (simp add: out_row_fields k)
qed

section \<open>Unrecognised responses\<close>

text \<open>
  Claim C5. A cell that is not one of the four response literals, a blank or a number
  included, maps to no category and no sentiment, so \<open>dropna\<close> removes its row. In a
  successful aggregation every output row belongs to one selected column and one of the
  four literals: its count is the number of cells of that column equal to that literal,
  and its total the number of cells of that column that are among the four literals. An
  error of the analysis does not depend on what the cells hold.
\<close>

theorem C5_unrecognised_dropped:
  assumes "distinct feedback_cols"
  shows "(\<forall>v. \<not> recognised v \<longrightarrow>
            series_map response_to_category v = None \<and>
            series_map response_to_sentiment v = None) \<and>
         (\<forall>melted. \<forall>r \<in> set (dropna (map categorize melted)). recognised (response r)) \<and>
         (\<forall>e rs. aggregate df feedback_cols = Inl e \<longrightarrow>
            aggregate (df\<lparr>rows := rs\<rparr>) feedback_cols = Inl e) \<and>
         (\<forall>res. aggregate df feedback_cols = Inr res \<longrightarrow>
            (\<forall>r \<in> set (aggregate_rows res). \<exists>i lit.
               i < length feedback_cols \<and>
               Criterion r = Some (short_label i (feedback_cols ! i)) \<and>
               map_of response_to_category lit = Some (Response_Category r) \<and>
               map_of response_to_sentiment lit = Some (Sentiment r) \<and>
               Count r = length [row \<leftarrow> rows df.
                 cell_of (columns df) row (feedback_cols ! i) = Text lit] \<and>
               Total r = length [row \<leftarrow> rows df.
                 recognised (cell_of (columns df) row (feedback_cols ! i))]))"
proof (intro conjI allI impI ballI)
  fix v assume "\<not> recognised v"
  then show "series_map response_to_category v = None"
    "series_map response_to_sentiment v = None"
    by (rule unrecognised_maps)+
next
  fix melted :: "long_row list" and r
  assume "r \<in> set (dropna (map categorize melted))"
  then obtain r' where "r = categorize r'" "response_category r \<noteq> None" "sentiment r \<noteq> None"
    by (auto simp: dropna_def)
  then have "classify (response r) \<noteq> None"
    by (auto simp: categorize_def classify_def)
  then show "recognised (response r)" by (simp add: recognised_iff)
next
  fix e rs assume "aggregate df feedback_cols = Inl e"
  then show "aggregate (df\<lparr>rows := rs\<rparr>) feedback_cols = Inl e"
    by (rule aggregate_error_rows)
next
  fix res r
  assume a: "aggregate df feedback_cols = Inr res" and r: "r \<in> set (aggregate_rows res)"
  from aggregate_InrD(4) [OF a] r obtain k where
    k: "k \<in> set (group_keys (df_long df feedback_cols))" "r = out_row df feedback_cols k"
    by (auto simp: aggregate_rows_eq)
  from out_row_counts [OF assms k(1)] k(2)
  show "\<exists>i lit. i < length feedback_cols \<and>
               Criterion r = Some (short_label i (feedback_cols ! i)) \<and>
               map_of response_to_category lit = Some (Response_Category r) \<and>
               map_of response_to_sentiment lit = Some (Sentiment r) \<and>
               Count r = length [row \<leftarrow> rows df.
                 cell_of (columns df) row (feedback_cols ! i) = Text lit] \<and>
               Total r = length [row \<leftarrow> rows df.
                 recognised (cell_of (columns df) row (feedback_cols ! i))]"
    by blast
qed

lemma mixed_aggregate:
  "aggregate mixed_df [ascii ''Q1''] =
     Inr \<lparr>total_responses = 5, aggregate_rows = mixed_rows, criteria_order = [ascii ''1. Q1'']\<rparr>"
  by (simp add: mixed_df_def mixed_rows_def pipeline_defs numeral_2_eq_2 [symmetric])

text \<open>The theorem of C5 at the five-row table, for the text \<open>N/A\<close> and for the first output row.\<close>

theorem C5_witness:
  "distinct [ascii ''Q1''] \<and>
   \<not> recognised (Text (ascii ''N/A'')) \<and>
   series_map response_to_category (Text (ascii ''N/A'')) = None \<and>
   series_map response_to_sentiment (Text (ascii ''N/A'')) = None \<and>
   aggregate mixed_df [ascii ''Q1''] =
     Inr \<lparr>total_responses = 5, aggregate_rows = mixed_rows, criteria_order = [ascii ''1. Q1'']\<rparr> \<and>
   hd mixed_rows \<in> set mixed_rows \<and>
   (\<exists>i lit. i < length [ascii ''Q1''] \<and>
      Criterion (hd mixed_rows) = Some (short_label i ([ascii ''Q1''] ! i)) \<and>
      map_of response_to_category lit = Some (Response_Category (hd mixed_rows)) \<and>
      map_of response_to_sentiment lit = Some (Sentiment (hd mixed_rows)) \<and>
      Count (hd mixed_rows) = length [row \<leftarrow> rows mixed_df.
        cell_of (columns mixed_df) row ([ascii ''Q1''] ! i) = Text lit] \<and>
      Total (hd mixed_rows) = length [row \<leftarrow> rows mixed_df.
        recognised (cell_of (columns mixed_df) row ([ascii ''Q1''] ! i))])"
proof -
  let ?res = "\<lparr>total_responses = 5, aggregate_rows = mixed_rows,
                 criteria_order = [ascii ''1. Q1'']\<rparr>"
  have d: "distinct [ascii ''Q1'']" by simp
  have u: "\<not> recognised (Text (ascii ''N/A''))"
    by (simp add: recognised_def response_to_category_def ascii_simps)
  have r: "hd mixed_rows \<in> set (aggregate_rows ?res)"
    by (simp add: mixed_rows_def)
  from C5_unrecognised_dropped [OF d, of mixed_df] u mixed_aggregate r
  have "series_map response_to_category (Text (ascii ''N/A'')) = None \<and>
        series_map response_to_sentiment (Text (ascii ''N/A'')) = None"
    and "\<exists>i lit. i < length [ascii ''Q1''] \<and>
      Criterion (hd mixed_rows) = Some (short_label i ([ascii ''Q1''] ! i)) \<and>
      map_of response_to_category lit = Some (Response_Category (hd mixed_rows)) \<and>
      map_of response_to_sentiment lit = Some (Sentiment (hd mixed_rows)) \<and>
      Count (hd mixed_rows) = length [row \<leftarrow> rows mixed_df.
        cell_of (columns mixed_df) row ([ascii ''Q1''] ! i) = Text lit] \<and>
      Total (hd mixed_rows) = length [row \<leftarrow> rows mixed_df.
        recognised (cell_of (columns mixed_df) row ([ascii ''Q1''] ! i))]"
    by blast+
  with d u mixed_aggregate r show ?thesis by simp
qed

section \<open>A question without recognised responses\<close>

lemma no_rows_for_unrecognised:
  assumes "distinct fc" "c \<in> set fc"
    and "\<forall>row \<in> set (rows df). \<not> recognised (cell_of (columns df) row c)"
    and "k \<in> set (group_keys (df_long df fc))"
  shows "fst k \<noteq> c"
proof
  assume "fst k = c"
  have "0 < Count (out_row df fc k)" by (rule count_pos [OF assms(4)])
  also have "Count (out_row df fc k) \<le> Total (out_row df fc k)" by (rule count_le_total)
  also have "Total (out_row df fc k) =
      length [row \<leftarrow> rows df. classify (cell_of (columns df) row c) \<noteq> None]"
    using total_df_long [OF assms(1,2), of df] \<open>fst k = c\<close> by (simp add: out_row_fields)
  also have "\<dots> = 0"
    using assms(3) by (simp add: recognised_iff)
  finally show False by simp
qed

text \<open>
  Claim C8, as stated for every table, fails: with a column labelled \<open>Response\<close> beside a
  question column that holds no recognised response, the analysis does not complete.
\<close>

theorem C8_counterexample:
  "\<not> recognised (Text (ascii ''N/A'')) \<and>
   aggregate
     \<lparr>columns = [ascii ''Q1'', ascii ''Response''],
      rows = [[Text (ascii ''N/A''), Text (ascii ''N/A'')]]\<rparr>
     [ascii ''Q1''] = Inl ValueError"
  by (simp add: aggregate_def melt_def Let_def ascii_simps recognised_def
      response_to_category_def)

text \<open>
  Claim C8, amended. For a table none of whose columns is labelled \<open>Response\<close> and none of
  whose unselected columns is labelled \<open>Criterion\<close>, and a non-empty selection among its
  columns without repetition: the analysis completes; a selected column that holds no
  recognised response has no row in the output; and every output row has a positive
  total, so no quotient has a zero divisor.
\<close>

theorem C8_empty_question:
  assumes "distinct feedback_cols" and "feedback_cols \<noteq> []"
    and "set feedback_cols \<subseteq> set (columns df)"
    and "ascii ''Response'' \<notin> set (columns df)"
    and "ascii ''Criterion'' \<notin> set (columns df) - set feedback_cols"
    and "c \<in> set feedback_cols"
    and "\<forall>row \<in> set (rows df). \<not> recognised (cell_of (columns df) row c)"
  shows "\<exists>res. aggregate df feedback_cols = Inr res \<and>
           (\<forall>r \<in> set (aggregate_rows res).
              Criterion r \<noteq> map_of (criterion_short_map feedback_cols) c \<and> 0 < Total r)"
proof -
  have "\<not> name_clash df feedback_cols"
    using assms(4,5) by (auto simp: name_clash_def)
  with aggregate_cases [OF assms(3)] assms(2)
  have a: "aggregate df feedback_cols = Inr (chart_data df feedback_cols)" by simp
  have "Criterion r \<noteq> map_of (criterion_short_map feedback_cols) c \<and> 0 < Total r"
    if "r \<in> set (aggregate_rows (chart_data df feedback_cols))" for r
  proof -
    from that obtain k where
      k: "k \<in> set (group_keys (df_long df feedback_cols))" "r = out_row df feedback_cols k"
      by (auto simp: aggregate_rows_eq)
    have "fst k \<noteq> c" by (rule no_rows_for_unrecognised [OF assms(1,6,7) k(1)])
    then have "Criterion r \<noteq> map_of (criterion_short_map feedback_cols) c"
      using criterion_short_map_inj [OF group_keys_df_long(1) [OF k(1)] assms(6)]
      by (auto simp: k(2) out_row_fields)
    moreover have "0 < Total r"
      using count_pos [OF k(1)] count_le_total [of df feedback_cols k] by (simp add: k(2))
    ultimately show ?thesis by simp
  qed
  with a show ?thesis by blast
qed

text \<open>
  The theorem of C8 at that table: the analysis completes, and its two rows belong to the
  first question.
\<close>

theorem C8_witness:
  "distinct [ascii ''Q1'', ascii ''Q2''] \<and>
   set [ascii ''Q1'', ascii ''Q2''] \<subseteq> set (columns unanswered_df) \<and>
   ascii ''Response'' \<notin> set (columns unanswered_df) \<and>
   ascii ''Criterion'' \<notin> set (columns unanswered_df) - set [ascii ''Q1'', ascii ''Q2''] \<and>
   list_all (\<lambda>row. \<not> recognised (cell_of (columns unanswered_df) row (ascii ''Q2'')))
     (rows unanswered_df) \<and>
   map_of (criterion_short_map [ascii ''Q1'', ascii ''Q2'']) (ascii ''Q2'') = Some (ascii ''2. Q2'') \<and>
   map (\<lambda>r. (Criterion r, Response_Category r, Count r, Total r))
     (aggregate_rows (projr (aggregate unanswered_df [ascii ''Q1'', ascii ''Q2'']))) =
     [(Some (ascii ''1. Q1''), ascii ''Agree'', 1, 2),
      (Some (ascii ''1. Q1''), ascii ''Strongly Agree'', 1, 2)] \<and>
   (\<exists>res. aggregate unanswered_df [ascii ''Q1'', ascii ''Q2''] = Inr res \<and>
      (\<forall>r \<in> set (aggregate_rows res).
         Criterion r \<noteq> map_of (criterion_short_map [ascii ''Q1'', ascii ''Q2'']) (ascii ''Q2'') \<and>
         0 < Total r))"
proof -
  have d: "distinct [ascii ''Q1'', ascii ''Q2'']" by (simp add: ascii_simps)
  have n: "[ascii ''Q1'', ascii ''Q2''] \<noteq> []" by simp
  have s: "set [ascii ''Q1'', ascii ''Q2''] \<subseteq> set (columns unanswered_df)"
    by (simp add: unanswered_df_def)
  have r: "ascii ''Response'' \<notin> set (columns unanswered_df)"
    by (simp add: unanswered_df_def ascii_simps)
  have c: "ascii ''Criterion'' \<notin> set (columns unanswered_df) - set [ascii ''Q1'', ascii ''Q2'']"
    by (simp add: unanswered_df_def ascii_simps)
  have m: "ascii ''Q2'' \<in> set [ascii ''Q1'', ascii ''Q2'']" by simp
  have u: "\<forall>row \<in> set (rows unanswered_df).
      \<not> recognised (cell_of (columns unanswered_df) row (ascii ''Q2''))"
    by (simp add: unanswered_df_def cell_of_def recognised_def response_to_category_def
        ascii_simps)
  have l: "map_of (criterion_short_map [ascii ''Q1'', ascii ''Q2'']) (ascii ''Q2'') =
      Some (ascii ''2. Q2'')"
    by (simp add: criterion_short_map_def short_label_def str_nat.simps ascii_simps)
  have e: "map (\<lambda>r. (Criterion r, Response_Category r, Count r, Total r))
     (aggregate_rows (projr (aggregate unanswered_df [ascii ''Q1'', ascii ''Q2'']))) =
     [(Some (ascii ''1. Q1''), ascii ''Agree'', 1, 2),
      (Some (ascii ''1. Q1''), ascii ''Strongly Agree'', 1, 2)]"
    by (simp add: unanswered_df_def pipeline_defs)
  show ?thesis
    using d s r c u l e C8_empty_question [OF d n s r c m u]
    by (simp add: list_all_iff)
qed

section \<open>The long form\<close>

lemma concat_blocks:
  assumes "\<And>x. x \<in> set xs \<Longrightarrow> length (f x) = n"
  shows "length (concat (map f xs)) = n * length xs"
    and "j < length xs \<Longrightarrow> i < n \<Longrightarrow> concat (map f xs) ! (j * n + i) = f (xs ! j) ! i"
  using assms
proof (induction xs arbitrary: j)
  case Nil
  {
    case 1
    show ?case by simp
  next
    case 2
    then show ?case by simp
  }
next
  case (Cons x xs)
  {
    case 1
    with Cons.IH(1) [of ] show ?case by simp
  next
    case 2
    then have len: "length (f x) = n" by simp
    show ?case
    proof (cases j)
      case 0
      with 2 len show ?thesis by (simp add: nth_append)
    next
      case (Suc j')
      with 2 have "concat (map f xs) ! (j' * n + i) = f (xs ! j') ! i"
        by (intro Cons.IH(2)) simp_all
      with Suc len show ?thesis by (simp add: nth_append)
    qed
  }
qed

lemma cell_of_nth:
  assumes "distinct cs" "length row = length cs" "n < length cs"
  shows "cell_of cs row (cs ! n) = row ! n"
  using assms by (simp add: cell_of_def map_of_zip_nth)

text \<open>
  Claim C9, as stated, fails in two ways. For a table with a column labelled \<open>Response\<close>
  beside the selected question column, \<open>melt\<close> raises and there is no long form. For a
  table with an unselected column labelled \<open>Criterion\<close>, the long form is not the one with
  the values of that column.
\<close>

theorem C9_counterexample:
  "melt
     \<lparr>columns = [ascii ''Name'', ascii ''Response'', ascii ''Q1''],
      rows = [[Text (ascii ''Ann''), Text (ascii ''yes''),
               Text (ascii ''Strongly Agree '' @ [0x2705])],
              [Text (ascii ''Bob''), Text (ascii ''no''),
               Text (ascii ''Disagree '' @ [0x26A0, 0xFE0F])]]\<rparr>
     [col \<leftarrow> [ascii ''Name'', ascii ''Response'', ascii ''Q1'']. col \<notin> set [ascii ''Q1'']]
     [ascii ''Q1''] (ascii ''Criterion'') (ascii ''Response'') = Inl ValueError \<and>
   melt
     \<lparr>columns = [ascii ''Criterion'', ascii ''Q1''],
      rows = [[Text (ascii ''x''), Text (ascii ''Strongly Agree '' @ [0x2705])],
              [Text (ascii ''y''), Text (ascii ''Disagree '' @ [0x26A0, 0xFE0F])]]\<rparr>
     [col \<leftarrow> [ascii ''Criterion'', ascii ''Q1'']. col \<notin> set [ascii ''Q1'']]
     [ascii ''Q1''] (ascii ''Criterion'') (ascii ''Response'') \<noteq>
     Inr [\<lparr>ids = [Text (ascii ''x'')], criterion = ascii ''Q1'',
            response = Text (ascii ''Strongly Agree '' @ [0x2705])\<rparr>,
          \<lparr>ids = [Text (ascii ''y'')], criterion = ascii ''Q1'',
            response = Text (ascii ''Disagree '' @ [0x26A0, 0xFE0F])\<rparr>]"
  by (simp add: melt_def melt_rows_def cell_of_def ascii_simps)

text \<open>
  Claim C9, amended. For a well-formed table with \<open>R\<close> rows, none of whose columns is
  labelled \<open>Response\<close> and none of whose unselected columns is labelled \<open>Criterion\<close>, and a
  selection of \<open>k\<close> of its columns, \<open>melt\<close> returns a long form of \<open>R * k\<close> rows: the row at
  place \<open>j * R + i\<close> is the one of table row \<open>i\<close> and selected column \<open>j\<close>, with the values
  of the columns that are not selected, the label of the column as criterion and the cell
  as response. The cell under the \<open>n\<close>-th label is the \<open>n\<close>-th cell of the row.
\<close>

theorem C9_melt_shape:
  assumes "wf_df df"
    and "set feedback_cols \<subseteq> set (columns df)"
    and "ascii ''Response'' \<notin> set (columns df)"
    and "ascii ''Criterion'' \<notin> set (columns df) - set feedback_cols"
  shows "\<exists>melted.
         melt df [col \<leftarrow> columns df. col \<notin> set feedback_cols] feedback_cols
           (ascii ''Criterion'') (ascii ''Response'') = Inr melted \<and>
         length melted = length (rows df) * length feedback_cols \<and>
         (\<forall>j < length feedback_cols. \<forall>i < length (rows df).
            melted ! (j * length (rows df) + i) =
              \<lparr>ids = map (cell_of (columns df) (rows df ! i))
                       [col \<leftarrow> columns df. col \<notin> set feedback_cols],
               criterion = feedback_cols ! j,
               response = cell_of (columns df) (rows df ! i) (feedback_cols ! j)\<rparr>) \<and>
         (\<forall>n < length (columns df). \<forall>i < length (rows df).
            cell_of (columns df) (rows df ! i) (columns df ! n) = rows df ! i ! n)"
proof -
  let ?iv = "[col \<leftarrow> columns df. col \<notin> set feedback_cols]"
  let ?vn = "ascii ''Criterion''"
  let ?melted = "concat (map (melt_rows df ?iv ?vn) feedback_cols)"
  have m: "melt df ?iv feedback_cols ?vn (ascii ''Response'') = Inr ?melted"
    using assms(2,3) by (auto simp: melt_def)
  have len: "length (melt_rows df ?iv ?vn c) = length (rows df)" for c
    by (simp add: melt_rows_def)
  have ids: "map (\<lambda>i. if i = ?vn then Text c else cell_of (columns df) row i) ?iv =
      map (cell_of (columns df) row) ?iv" for c row
    using assms(4) by (intro map_cong refl) auto
  have "length ?melted = length (rows df) * length feedback_cols"
    by (rule concat_blocks(1)) (rule len)
  moreover have "?melted ! (j * length (rows df) + i) =
              \<lparr>ids = map (cell_of (columns df) (rows df ! i)) ?iv,
               criterion = feedback_cols ! j,
               response = cell_of (columns df) (rows df ! i) (feedback_cols ! j)\<rparr>"
    if "j < length feedback_cols" "i < length (rows df)" for i j
  proof -
    have "?melted ! (j * length (rows df) + i) = melt_rows df ?iv ?vn (feedback_cols ! j) ! i"
      using that by (intro concat_blocks(2)) (simp_all add: len)
    with that(2) show ?thesis by (simp add: melt_rows_def ids)
  qed
  moreover have "cell_of (columns df) (rows df ! i) (columns df ! n) = rows df ! i ! n"
    if "n < length (columns df)" "i < length (rows df)" for n i
    using assms(1) that by (intro cell_of_nth) (auto simp: wf_df_def)
  ultimately show ?thesis using m by blast
qed

text \<open>
  The theorem of C9 at that table with both questions selected: four rows in the long
  form, each with the name.
\<close>

theorem C9_witness:
  "wf_df named_df \<and> set [ascii ''Q1'', ascii ''Q2''] \<subseteq> set (columns named_df) \<and>
   ascii ''Response'' \<notin> set (columns named_df) \<and>
   ascii ''Criterion'' \<notin> set (columns named_df) - set [ascii ''Q1'', ascii ''Q2''] \<and>
   melt named_df [col \<leftarrow> columns named_df. col \<notin> set [ascii ''Q1'', ascii ''Q2'']]
     [ascii ''Q1'', ascii ''Q2''] (ascii ''Criterion'') (ascii ''Response'') =
     Inr [\<lparr>ids = [Text (ascii ''Ann'')], criterion = ascii ''Q1'', response = Blank\<rparr>,
          \<lparr>ids = [Text (ascii ''Bob'')], criterion = ascii ''Q1'', response = Number 4\<rparr>,
          \<lparr>ids = [Text (ascii ''Ann'')], criterion = ascii ''Q2'',
            response = Text (ascii ''Agree '' @ [0x270B, 0x1F3FB])\<rparr>,
          \<lparr>ids = [Text (ascii ''Bob'')], criterion = ascii ''Q2'',
            response = Text (ascii ''N/A'')\<rparr>] \<and>
   (\<exists>melted.
      melt named_df [col \<leftarrow> columns named_df. col \<notin> set [ascii ''Q1'', ascii ''Q2'']]
        [ascii ''Q1'', ascii ''Q2''] (ascii ''Criterion'') (ascii ''Response'') = Inr melted \<and>
      length melted = length (rows named_df) * length [ascii ''Q1'', ascii ''Q2''] \<and>
      length melted = 4)"
proof -
  have w: "wf_df named_df" by (simp add: wf_df_def named_df_def ascii_simps)
  have s: "set [ascii ''Q1'', ascii ''Q2''] \<subseteq> set (columns named_df)"
    by (simp add: named_df_def)
  have r: "ascii ''Response'' \<notin> set (columns named_df)"
    by (simp add: named_df_def ascii_simps)
  have c: "ascii ''Criterion'' \<notin> set (columns named_df) - set [ascii ''Q1'', ascii ''Q2'']"
    by (simp add: named_df_def ascii_simps)
  have m: "melt named_df [col \<leftarrow> columns named_df. col \<notin> set [ascii ''Q1'', ascii ''Q2'']]
     [ascii ''Q1'', ascii ''Q2''] (ascii ''Criterion'') (ascii ''Response'') =
     Inr [\<lparr>ids = [Text (ascii ''Ann'')], criterion = ascii ''Q1'', response = Blank\<rparr>,
          \<lparr>ids = [Text (ascii ''Bob'')], criterion = ascii ''Q1'', response = Number 4\<rparr>,
          \<lparr>ids = [Text (ascii ''Ann'')], criterion = ascii ''Q2'',
            response = Text (ascii ''Agree '' @ [0x270B, 0x1F3FB])\<rparr>,
          \<lparr>ids = [Text (ascii ''Bob'')], criterion = ascii ''Q2'',
            response = Text (ascii ''N/A'')\<rparr>]"
    by (simp add: melt_def melt_rows_def cell_of_def named_df_def ascii_simps)
  from C9_melt_shape [OF w s r c]
  have "\<exists>melted.
      melt named_df [col \<leftarrow> columns named_df. col \<notin> set [ascii ''Q1'', ascii ''Q2'']]
        [ascii ''Q1'', ascii ''Q2''] (ascii ''Criterion'') (ascii ''Response'') = Inr melted \<and>
      length melted = length (rows named_df) * length [ascii ''Q1'', ascii ''Q2'']"
    by blast
  with m have "\<exists>melted.
      melt named_df [col \<leftarrow> columns named_df. col \<notin> set [ascii ''Q1'', ascii ''Q2'']]
        [ascii ''Q1'', ascii ''Q2''] (ascii ''Criterion'') (ascii ''Response'') = Inr melted \<and>
      length melted = length (rows named_df) * length [ascii ''Q1'', ascii ''Q2''] \<and>
      length melted = 4"
    by auto
  with w s r c m show ?thesis by blast
qed

section \<open>Short names of the questions\<close>

lemma decimal_value_str_nat: "decimal_value (str_nat n) = n"
proof (induction n rule: str_nat.induct)
  case (1 n)
  show ?case
  proof (cases "n < 10")
    case True
    then show ?thesis by (subst str_nat.simps) (simp add: decimal_value_def)
  next
    case False
    with 1 have "decimal_value (str_nat (n div 10)) = n div 10" by simp
    with False show ?thesis
      by (subst str_nat.simps) (simp add: decimal_value_def)
  qed
qed

lemma hd_str_nat: "0 < n \<Longrightarrow> hd (str_nat n) \<noteq> 48"
proof (induction n rule: str_nat.induct)
  case (1 n)
  show ?case
  proof (cases "n < 10")
    case True
    with "1.prems" show ?thesis by (subst str_nat.simps) simp
  next
    case False
    with 1 have "hd (str_nat (n div 10)) \<noteq> 48" by simp
    with False str_nat_nonempty [of "n div 10"] show ?thesis
      by (subst str_nat.simps) simp
  qed
qed

lemma decimal_numeral_str_nat: "0 < n \<Longrightarrow> decimal_numeral (str_nat n) n"
  using str_nat_digits [of _ n]
  by (auto simp: decimal_numeral_def str_nat_nonempty hd_str_nat decimal_value_str_nat
      list_all_iff)

lemma criterion_short_map_nth:
  assumes "distinct fc" "i < length fc"
  shows "map_of (criterion_short_map fc) (fc ! i) = Some (short_label i (fc ! i))"
proof -
  from criterion_short_map_lookup [of "fc ! i" fc] assms(2) obtain j where
    j: "j < length fc" "fc ! j = fc ! i"
    "map_of (criterion_short_map fc) (fc ! i) = Some (short_label j (fc ! i))"
    by auto
  from assms j(1,2) have "j = i" by (simp add: nth_eq_iff_index_eq)
  with j(3) show ?thesis by simp
qed

lemma values_distinct:
  assumes "distinct fc"
  shows "map snd (criterion_short_map fc) = map (\<lambda>i. short_label i (fc ! i)) [0..<length fc]"
proof -
  have "map snd (criterion_short_map fc) = map (\<lambda>(i, c). short_label i c) (enumerate 0 fc)"
    by (simp add: criterion_short_map_distinct [OF assms] case_prod_beta comp_def)
  also have "\<dots> = map (\<lambda>i. short_label i (fc ! i)) [0..<length fc]"
    by (rule nth_equalityI) (simp_all add: nth_enumerate_eq)
  finally show ?thesis .
qed

text \<open>
  Claim C6. In a selection without repetition the column at place \<open>i\<close>, counted from zero,
  gets the label made of the decimal numeral of \<open>i + 1\<close> (digits only, no leading zero,
  denoting \<open>i + 1\<close>), a dot, a space, and then its name if that has at most 60 code points,
  else the first 60 code points of the name and three dots. A first column whose name has
  70 code points gets \<open>1. \<close>, its first 60 code points and three dots.
\<close>

theorem C6_short_label:
  assumes "distinct feedback_cols" and "i < length feedback_cols"
  shows "(\<exists>ds. decimal_numeral ds (i + 1) \<and>
            map_of (criterion_short_map feedback_cols) (feedback_cols ! i) =
              Some (ds @ ascii ''. '' @
                (if length (feedback_cols ! i) \<le> 60 then feedback_cols ! i
                 else take 60 (feedback_cols ! i) @ ascii ''...''))) \<and>
         (i = 0 \<and> length (feedback_cols ! i) = 70 \<longrightarrow>
            map_of (criterion_short_map feedback_cols) (feedback_cols ! i) =
              Some (ascii ''1. '' @ take 60 (feedback_cols ! i) @ ascii ''...''))"
proof -
  have l: "map_of (criterion_short_map feedback_cols) (feedback_cols ! i) =
      Some (str_nat (i + 1) @ ascii ''. '' @
        (if length (feedback_cols ! i) \<le> 60 then feedback_cols ! i
         else take 60 (feedback_cols ! i) @ ascii ''...''))"
    using criterion_short_map_nth [OF assms] by (auto simp: short_label_def)
  have "decimal_numeral (str_nat (i + 1)) (i + 1)"
    by (rule decimal_numeral_str_nat) simp
  with l have "\<exists>ds. decimal_numeral ds (i + 1) \<and>
            map_of (criterion_short_map feedback_cols) (feedback_cols ! i) =
              Some (ds @ ascii ''. '' @
                (if length (feedback_cols ! i) \<le> 60 then feedback_cols ! i
                 else take 60 (feedback_cols ! i) @ ascii ''...''))"
    by blast
  moreover have "map_of (criterion_short_map feedback_cols) (feedback_cols ! i) =
      Some (ascii ''1. '' @ take 60 (feedback_cols ! i) @ ascii ''...'')"
    if "i = 0 \<and> length (feedback_cols ! i) = 70"
  proof -
    from that have i0: "i = 0" and len: "length (feedback_cols ! i) = 70" by blast+
    from len have "\<not> length (feedback_cols ! i) \<le> 60" by linarith
    with l have "map_of (criterion_short_map feedback_cols) (feedback_cols ! i) =
        Some (str_nat (i + 1) @ ascii ''. '' @ take 60 (feedback_cols ! i) @ ascii ''...'')"
      by (simp only: if_False)
    then show ?thesis by (simp add: i0 str_nat.simps ascii_simps)
  qed
  ultimately show ?thesis by blast
qed

text \<open>
  The theorem of C6 at twelve columns, for the twelfth, whose name has 70 code points: its
  label starts with \<open>12. \<close>, and \<open>12\<close> is the only numeral the theorem leaves for it.
\<close>

theorem C6_witness:
  "distinct twelve_cols \<and> 11 < length twelve_cols \<and> twelve_cols ! 11 = long_name \<and>
   length long_name = 70 \<and>
   map_of (criterion_short_map twelve_cols) long_name =
     Some (ascii ''12. How clearly did the teacher explain the aims of every lesson...'') \<and>
   decimal_numeral (ascii ''12'') (11 + 1) \<and>
   (\<exists>ds. decimal_numeral ds (11 + 1) \<and>
      map_of (criterion_short_map twelve_cols) (twelve_cols ! 11) =
        Some (ds @ ascii ''. '' @
          (if length (twelve_cols ! 11) \<le> 60 then twelve_cols ! 11
           else take 60 (twelve_cols ! 11) @ ascii ''...'')))"
proof -
  have d: "distinct twelve_cols"
    by (simp add: twelve_cols_def ten_cols_def long_name_def ascii_simps)
  have i: "11 < length twelve_cols" by (simp add: twelve_cols_def ten_cols_def)
  have n: "twelve_cols ! 11 = long_name" by (simp add: twelve_cols_def ten_cols_def)
  have l: "length long_name = 70" by (simp add: long_name_def ascii_def)
  have m: "map_of (criterion_short_map twelve_cols) long_name =
     Some (ascii ''12. How clearly did the teacher explain the aims of every lesson...'')"
    by (simp add: twelve_cols_def ten_cols_def criterion_short_map_def short_label_def
        str_nat.simps long_name_def ascii_simps)
  have v: "decimal_numeral (ascii ''12'') (11 + 1)"
    by (simp add: decimal_numeral_def decimal_value_def ascii_simps)
  from C6_short_label [OF d i]
  have "\<exists>ds. decimal_numeral ds (11 + 1) \<and>
      map_of (criterion_short_map twelve_cols) (twelve_cols ! 11) =
        Some (ds @ ascii ''. '' @
          (if length (twelve_cols ! 11) \<le> 60 then twelve_cols ! 11
           else take 60 (twelve_cols ! 11) @ ascii ''...''))"
    by blast
  with d i n l m v show ?thesis by blast
qed

text \<open>
  Claim C7. In a selection without repetition the column at place \<open>i\<close> gets a label that
  starts with the decimal numeral of \<open>i + 1\<close>, a dot and a space, whatever the names are.
  \<open>sorted_criteria\<close>, which is the \<open>criteria_order\<close> of the result and which the chart takes
  as the order of its rows, holds exactly the labels of the selected columns, one each, in
  ascending lexicographic order of their code points. With ten columns or more, the label
  of the tenth, which starts with \<open>10. \<close>, stands before the label of the second, which
  starts with \<open>2. \<close>.
\<close>

theorem C7_label_order:
  assumes "distinct feedback_cols"
  shows "(\<forall>i < length feedback_cols. \<exists>ds rest. decimal_numeral ds (i + 1) \<and>
            map_of (criterion_short_map feedback_cols) (feedback_cols ! i) =
              Some (ds @ ascii ''. '' @ rest)) \<and>
         sorted_wrt (\<lambda>a b. a = b \<or> (a, b) \<in> lexord {(u, v). u < v})
           (sorted_criteria feedback_cols) \<and>
         set (sorted_criteria feedback_cols) =
           {l. \<exists>c \<in> set feedback_cols. map_of (criterion_short_map feedback_cols) c = Some l} \<and>
         length (sorted_criteria feedback_cols) = length feedback_cols \<and>
         (\<forall>df res. aggregate df feedback_cols = Inr res \<longrightarrow>
            criteria_order res = sorted_criteria feedback_cols) \<and>
         (10 \<le> length feedback_cols \<longrightarrow>
            (\<exists>p q x y. p < q \<and> q < length feedback_cols \<and>
               map_of (criterion_short_map feedback_cols) (feedback_cols ! 9) =
                 Some (sorted_criteria feedback_cols ! p) \<and>
               map_of (criterion_short_map feedback_cols) (feedback_cols ! 1) =
                 Some (sorted_criteria feedback_cols ! q) \<and>
               sorted_criteria feedback_cols ! p = ascii ''10. '' @ x \<and>
               sorted_criteria feedback_cols ! q = ascii ''2. '' @ y))"
proof -
  let ?S = "sorted_criteria feedback_cols"
  let ?m = "map_of (criterion_short_map feedback_cols)"
  let ?a = "short_label 9 (feedback_cols ! 9)"
  let ?b = "short_label 1 (feedback_cols ! 1)"
  note nth = criterion_short_map_nth [OF assms]
  have S: "?S = sort (map (\<lambda>i. short_label i (feedback_cols ! i)) [0..<length feedback_cols])"
    by (simp add: sorted_criteria_def values_distinct [OF assms])
  have idx: "\<exists>ds rest. decimal_numeral ds (i + 1) \<and>
      ?m (feedback_cols ! i) = Some (ds @ ascii ''. '' @ rest)"
    if "i < length feedback_cols" for i
  proof -
    have "?m (feedback_cols ! i) = Some (str_nat (i + 1) @ ascii ''. '' @
        (if length (feedback_cols ! i) \<le> 60 then feedback_cols ! i
         else take 60 (feedback_cols ! i) @ ascii ''...''))"
      using nth [OF that] by (auto simp: short_label_def)
    moreover have "decimal_numeral (str_nat (i + 1)) (i + 1)"
      by (rule decimal_numeral_str_nat) simp
    ultimately show ?thesis by blast
  qed
  have "sorted ?S" by (simp add: S)
  then have lex: "sorted_wrt (\<lambda>a b. a = b \<or> (a, b) \<in> lexord {(u, v). u < v}) ?S"
    by (rule sorted_wrt_mono_rel [rotated]) (auto simp: list_le_def list_less_def)
  have set': "set ?S = (\<lambda>i. short_label i (feedback_cols ! i)) ` {..<length feedback_cols}"
    by (auto simp: S)
  have set: "set ?S = {l. \<exists>c \<in> set feedback_cols. ?m c = Some l}"
  proof (intro set_eqI iffI)
    fix l assume "l \<in> set ?S"
    then obtain i where "i < length feedback_cols" "l = short_label i (feedback_cols ! i)"
      by (auto simp: set')
    with nth [of i] show "l \<in> {l. \<exists>c \<in> set feedback_cols. ?m c = Some l}"
      by (auto intro!: bexI [of _ "feedback_cols ! i"])
  next
    fix l assume "l \<in> {l. \<exists>c \<in> set feedback_cols. ?m c = Some l}"
    then obtain i where "i < length feedback_cols" "?m (feedback_cols ! i) = Some l"
      by (auto simp: in_set_conv_nth)
    with nth [of i] show "l \<in> set ?S" by (auto simp: set')
  qed
  have len: "length ?S = length feedback_cols" by (simp add: S)
  have ord: "criteria_order res = ?S" if "aggregate df feedback_cols = Inr res" for df res
    using aggregate_InrD(4) [OF that] by (simp add: chart_data_def)
  have pos: "\<exists>p q x y. p < q \<and> q < length feedback_cols \<and>
      ?m (feedback_cols ! 9) = Some (?S ! p) \<and> ?m (feedback_cols ! 1) = Some (?S ! q) \<and>
      ?S ! p = ascii ''10. '' @ x \<and> ?S ! q = ascii ''2. '' @ y"
    if ten: "10 \<le> length feedback_cols"
  proof -
    have "?a \<in> set ?S" "?b \<in> set ?S" using ten by (auto simp: set')
    then obtain p q where p: "p < length ?S" "?S ! p = ?a" and q: "q < length ?S" "?S ! q = ?b"
      by (auto simp: in_set_conv_nth)
    have "p < q"
    proof (rule ccontr)
      assume "\<not> p < q"
      then have "q \<le> p" by simp
      with \<open>sorted ?S\<close> p(1) have "?S ! q \<le> ?S ! p" by (simp add: sorted_nth_mono)
      with p(2) q(2) label_10_before_2 [of "feedback_cols ! 9" "feedback_cols ! 1"]
      show False by simp
    qed
    moreover have "\<exists>x. ?a = ascii ''10. '' @ x" "\<exists>y. ?b = ascii ''2. '' @ y"
      by (simp_all add: short_label_def str_nat.simps ascii_simps)
    moreover have "?m (feedback_cols ! 9) = Some ?a" "?m (feedback_cols ! 1) = Some ?b"
      using ten by (simp_all add: nth)
    ultimately show ?thesis using p q len by metis
  qed
  from idx lex set len ord pos show ?thesis by blast
qed

lemma ten_cols_sorted:
  "sorted_criteria ten_cols =
     [ascii ''1. a'', ascii ''10. j'', ascii ''2. b'', ascii ''3. c'', ascii ''4. d'',
      ascii ''5. e'', ascii ''6. f'', ascii ''7. g'', ascii ''8. h'', ascii ''9. i'']"
  by (simp add: ten_cols_def sorted_criteria_def criterion_short_map_def short_label_def
      str_nat.simps ascii_simps)

text \<open>The theorem of C7 at ten columns: \<open>10. j\<close> is second, \<open>2. b\<close> third.\<close>

theorem C7_witness:
  "distinct ten_cols \<and> 10 \<le> length ten_cols \<and>
   sorted_criteria ten_cols =
     [ascii ''1. a'', ascii ''10. j'', ascii ''2. b'', ascii ''3. c'', ascii ''4. d'',
      ascii ''5. e'', ascii ''6. f'', ascii ''7. g'', ascii ''8. h'', ascii ''9. i''] \<and>
   length (sorted_criteria ten_cols) = length ten_cols \<and>
   (\<exists>p q x y. p < q \<and> q < length ten_cols \<and>
      map_of (criterion_short_map ten_cols) (ten_cols ! 9) = Some (sorted_criteria ten_cols ! p) \<and>
      map_of (criterion_short_map ten_cols) (ten_cols ! 1) = Some (sorted_criteria ten_cols ! q) \<and>
      sorted_criteria ten_cols ! p = ascii ''10. '' @ x \<and>
      sorted_criteria ten_cols ! q = ascii ''2. '' @ y)"
proof -
  have d: "distinct ten_cols" by (simp add: ten_cols_def ascii_simps)
  have l: "10 \<le> length ten_cols" by (simp add: ten_cols_def)
  from C7_label_order [OF d] l
  have "length (sorted_criteria ten_cols) = length ten_cols"
    and "\<exists>p q x y. p < q \<and> q < length ten_cols \<and>
      map_of (criterion_short_map ten_cols) (ten_cols ! 9) = Some (sorted_criteria ten_cols ! p) \<and>
      map_of (criterion_short_map ten_cols) (ten_cols ! 1) = Some (sorted_criteria ten_cols ! q) \<and>
      sorted_criteria ten_cols ! p = ascii ''10. '' @ x \<and>
      sorted_criteria ten_cols ! q = ascii ''2. '' @ y"
    by blast+
  with d l ten_cols_sorted show ?thesis by simp
qed

text \<open>
  Claim C10. Two different selected columns get different labels, neither missing;
  the labels are those of two different places of the selection, so their numerals
  differ. Hence two rows of \<open>df_perc\<close> that get the same label had the same criterion
  before: the renaming merges no two questions, whatever their names share.
\<close>

theorem C10_labels_injective:
  "(\<forall>c1 \<in> set feedback_cols. \<forall>c2 \<in> set feedback_cols. c1 \<noteq> c2 \<longrightarrow>
      (\<exists>i j. i < length feedback_cols \<and> j < length feedback_cols \<and> i \<noteq> j \<and>
         feedback_cols ! i = c1 \<and> feedback_cols ! j = c2 \<and>
         map_of (criterion_short_map feedback_cols) c1 = Some (short_label i c1) \<and>
         map_of (criterion_short_map feedback_cols) c2 = Some (short_label j c2) \<and>
         short_label i c1 \<noteq> short_label j c2)) \<and>
   (\<forall>r1 \<in> set (df_perc (df_long df feedback_cols)).
    \<forall>r2 \<in> set (df_perc (df_long df feedback_cols)).
      Criterion (relabel (criterion_short_map feedback_cols) r1) =
      Criterion (relabel (criterion_short_map feedback_cols) r2) \<longrightarrow>
        Criterion r1 = Criterion r2)"
proof (intro conjI ballI impI)
  fix c1 c2
  assume c: "c1 \<in> set feedback_cols" "c2 \<in> set feedback_cols" "c1 \<noteq> c2"
  from criterion_short_map_lookup [OF c(1)] obtain i where
    i: "i < length feedback_cols" "feedback_cols ! i = c1"
    "map_of (criterion_short_map feedback_cols) c1 = Some (short_label i c1)" by blast
  from criterion_short_map_lookup [OF c(2)] obtain j where
    j: "j < length feedback_cols" "feedback_cols ! j = c2"
    "map_of (criterion_short_map feedback_cols) c2 = Some (short_label j c2)" by blast
  from i(2) j(2) c(3) have ij: "i \<noteq> j" by auto
  then have "short_label i c1 \<noteq> short_label j c2"
    using short_label_index_inj by blast
  with i j ij show "\<exists>i j. i < length feedback_cols \<and> j < length feedback_cols \<and> i \<noteq> j \<and>
         feedback_cols ! i = c1 \<and> feedback_cols ! j = c2 \<and>
         map_of (criterion_short_map feedback_cols) c1 = Some (short_label i c1) \<and>
         map_of (criterion_short_map feedback_cols) c2 = Some (short_label j c2) \<and>
         short_label i c1 \<noteq> short_label j c2"
    by blast
next
  fix r1 r2
  assume r: "r1 \<in> set (df_perc (df_long df feedback_cols))"
    "r2 \<in> set (df_perc (df_long df feedback_cols))"
    and eq: "Criterion (relabel (criterion_short_map feedback_cols) r1) =
      Criterion (relabel (criterion_short_map feedback_cols) r2)"
  have crit: "Criterion r \<in> set feedback_cols"
    if "r \<in> set (df_perc (df_long df feedback_cols))" for r
  proof -
    from that obtain k where "k \<in> set (group_keys (df_long df feedback_cols))"
      "r = perc_row (counted (df_long df feedback_cols) k)"
      by (auto simp: df_perc_eq)
    with group_keys_df_long(1) [OF this(1)] show ?thesis
      by (simp add: perc_row_def counted_def)
  qed
  from eq have "map_of (criterion_short_map feedback_cols) (Criterion r1) =
      map_of (criterion_short_map feedback_cols) (Criterion r2)"
    by (simp add: relabel_def)
  with crit [OF r(1)] crit [OF r(2)] show "Criterion r1 = Criterion r2"
    by (rule criterion_short_map_inj)
qed

text \<open>
  The theorem of C10 at the two names that share their first 60 code points: the labels
  differ in their numerals only.
\<close>

theorem C10_witness:
  "long_name \<noteq> long_name' \<and> take 60 long_name = take 60 long_name' \<and>
   map_of (criterion_short_map [long_name, long_name']) long_name =
     Some (ascii ''1. How clearly did the teacher explain the aims of every lesson...'') \<and>
   map_of (criterion_short_map [long_name, long_name']) long_name' =
     Some (ascii ''2. How clearly did the teacher explain the aims of every lesson...'') \<and>
   (\<exists>i j. i < length [long_name, long_name'] \<and> j < length [long_name, long_name'] \<and> i \<noteq> j \<and>
      [long_name, long_name'] ! i = long_name \<and> [long_name, long_name'] ! j = long_name' \<and>
      map_of (criterion_short_map [long_name, long_name']) long_name =
        Some (short_label i long_name) \<and>
      map_of (criterion_short_map [long_name, long_name']) long_name' =
        Some (short_label j long_name') \<and>
      short_label i long_name \<noteq> short_label j long_name')"
proof -
  have n: "long_name \<noteq> long_name'"
    by (simp add: long_name_def long_name'_def ascii_simps)
  have t: "take 60 long_name = take 60 long_name'"
    by (simp add: long_name_def long_name'_def ascii_simps)
  have m: "map_of (criterion_short_map [long_name, long_name']) long_name =
     Some (ascii ''1. How clearly did the teacher explain the aims of every lesson...'')"
    "map_of (criterion_short_map [long_name, long_name']) long_name' =
     Some (ascii ''2. How clearly did the teacher explain the aims of every lesson...'')"
    by (simp_all add: criterion_short_map_def short_label_def str_nat.simps
        long_name_def long_name'_def ascii_simps)
  from C10_labels_injective [of "[long_name, long_name']" example_df] n
  have "\<exists>i j. i < length [long_name, long_name'] \<and> j < length [long_name, long_name'] \<and> i \<noteq> j \<and>
      [long_name, long_name'] ! i = long_name \<and> [long_name, long_name'] ! j = long_name' \<and>
      map_of (criterion_short_map [long_name, long_name']) long_name =
        Some (short_label i long_name) \<and>
      map_of (criterion_short_map [long_name, long_name']) long_name' =
        Some (short_label j long_name') \<and>
      short_label i long_name \<noteq> short_label j long_name'"
    by simp
  with n t m show ?thesis by simp
qed

section \<open>Outcomes of the analysis\<close>








end
